theory Spec2Isabelle
  imports Complex_Main
begin

section \<open>Data of \<^verbatim>\<open>commute_app.py\<close>\<close>

text \<open>
  The exceptions the two core functions can raise. \<open>ValueError\<close> comes from
  \<^verbatim>\<open>datetime.replace\<close> and \<^verbatim>\<open>datetime.strptime\<close>, \<open>OverflowError\<close> from adding a
  \<^verbatim>\<open>timedelta\<close> past year 9999, \<open>IndexError\<close> from \<^verbatim>\<open>batch[j]\<close> and
  \<^verbatim>\<open>row["elements"][0]\<close>, \<open>KeyError\<close> from a subscript on a JSON object that lacks the
  key, \<open>ZeroDivisionError\<close> from the progress fraction, \<open>RequestException\<close> stands
  for whatever \<^verbatim>\<open>requests.get\<close> or \<^verbatim>\<open>response.json()\<close> raise.
\<close>

datatype py_error =
    ValueError
  | OverflowError
  | IndexError
  | KeyError string
  | ZeroDivisionError
  | RequestException string

text \<open>
  A calendar date and a naive \<^verbatim>\<open>datetime\<close> (no time zone), with Python's attribute names.
\<close>

record date =
  year :: nat
  month :: nat
  day :: nat

record datetime = date +
  hour :: nat
  minute :: nat
  second :: nat
  microsecond :: nat

definition is_leap :: "nat \<Rightarrow> bool" where
  "is_leap y = (y mod 4 = 0 \<and> (y mod 100 \<noteq> 0 \<or> y mod 400 = 0))"

definition days_in_month :: "nat \<Rightarrow> nat \<Rightarrow> nat" where
  "days_in_month y m =
     (if m = 2 then (if is_leap y then 29 else 28)
      else if m = 4 \<or> m = 6 \<or> m = 9 \<or> m = 11 then 30 else 31)"

text \<open>The range check of the \<^verbatim>\<open>date\<close> constructor (\<^verbatim>\<open>MINYEAR = 1\<close>, \<^verbatim>\<open>MAXYEAR = 9999\<close>).\<close>

definition valid_ymd :: "nat \<Rightarrow> nat \<Rightarrow> nat \<Rightarrow> bool" where
  "valid_ymd y m d =
     (1 \<le> y \<and> y \<le> 9999 \<and> 1 \<le> m \<and> m \<le> 12 \<and> 1 \<le> d \<and> d \<le> days_in_month y m)"

definition valid_datetime :: "datetime \<Rightarrow> bool" where
  "valid_datetime t =
     (valid_ymd (year t) (month t) (day t) \<and> hour t < 24 \<and> minute t < 60 \<and>
      second t < 60 \<and> microsecond t < 1000000)"

text \<open>
  Proleptic Gregorian ordinal of a date, as \<^verbatim>\<open>date.toordinal\<close> computes it
  (1 is 0001-01-01).
\<close>

definition days_before_year :: "nat \<Rightarrow> nat" where
  "days_before_year y =
     (let p = y - 1 in p * 365 + p div 4 - p div 100 + p div 400)"

definition days_before_month :: "nat \<Rightarrow> nat \<Rightarrow> nat" where
  "days_before_month y m =
     [0, 0, 31, 59, 90, 120, 151, 181, 212, 243, 273, 304, 334] ! m
       + (if m > 2 \<and> is_leap y then 1 else 0)"

definition toordinal :: "nat \<Rightarrow> nat \<Rightarrow> nat \<Rightarrow> nat" where
  "toordinal y m d = days_before_year y + days_before_month y m + d"

text \<open>
  Comparison of naive datetimes: field by field, most significant first.
\<close>

definition dt_key :: "datetime \<Rightarrow> nat list" where
  "dt_key t = [year t, month t, day t, hour t, minute t, second t, microsecond t]"

fun lex_le :: "nat list \<Rightarrow> nat list \<Rightarrow> bool" where
  "lex_le [] ys = True"
| "lex_le (x # xs) [] = False"
| "lex_le (x # xs) (y # ys) = (x < y \<or> (x = y \<and> lex_le xs ys))"

definition dt_le :: "datetime \<Rightarrow> datetime \<Rightarrow> bool" where
  "dt_le a b = lex_le (dt_key a) (dt_key b)"

definition dt_lt :: "datetime \<Rightarrow> datetime \<Rightarrow> bool" where
  "dt_lt a b = (\<not> dt_le b a)"

text \<open>
  \<^verbatim>\<open>now.replace(hour=hour, minute=minute, second=0, microsecond=0)\<close>: the constructor
  checks the new fields and raises \<open>ValueError\<close> outside 0..23 and 0..59.
\<close>

definition replace_hm :: "datetime \<Rightarrow> int \<Rightarrow> int \<Rightarrow> py_error + datetime" where
  "replace_hm now hr mn =
     (if 0 \<le> hr \<and> hr \<le> 23 \<and> 0 \<le> mn \<and> mn \<le> 59
      then Inr (now\<lparr>hour := nat hr, minute := nat mn, second := 0, microsecond := 0\<rparr>)
      else Inl ValueError)"

text \<open>
  \<^verbatim>\<open>dt + timedelta(days=1)\<close>: the next calendar day, same time of day;
  \<open>OverflowError\<close> after 9999-12-31.
\<close>

definition add_one_day :: "datetime \<Rightarrow> py_error + datetime" where
  "add_one_day t =
     (if day t < days_in_month (year t) (month t) then Inr (t\<lparr>day := day t + 1\<rparr>)
      else if month t < 12 then Inr (t\<lparr>month := month t + 1, day := 1\<rparr>)
      else if year t < 9999 then Inr (t\<lparr>year := year t + 1, month := 1, day := 1\<rparr>)
      else Inl OverflowError)"

text \<open>
  \<^verbatim>\<open>datetime.strptime(f"{date} {hour:02d}:{minute:02d}", "%Y-%m-%d %H:%M")\<close>.
  The caller passes \<^verbatim>\<open>str(departure_date)\<close> of a calendar date (line 225), so the model
  takes the calendar date itself. \<^verbatim>\<open>{hour:02d}\<close> prints at least two digits and
  \<^verbatim>\<open>%H\<close>, \<^verbatim>\<open>%M\<close> accept 0..23 and 0..59 only; any other hour or minute leaves
  unmatched text, and a day that does not exist in its month is refused by the
  constructor: \<open>ValueError\<close> in each case.
\<close>

definition strptime :: "date \<Rightarrow> int \<Rightarrow> int \<Rightarrow> py_error + datetime" where
  "strptime d hr mn =
     (if valid_ymd (year d) (month d) (day d) \<and> 0 \<le> hr \<and> hr \<le> 23 \<and> 0 \<le> mn \<and> mn \<le> 59
      then Inr \<lparr>year = year d, month = month d, day = day d,
                hour = nat hr, minute = nat mn, second = 0, microsecond = 0\<rparr>
      else Inl ValueError)"

section \<open>The environment\<close>

text \<open>
  What the functions read from outside: the wall clock (\<open>clock E k\<close> is the value of the
  \<open>k\<close>-th call of \<^verbatim>\<open>datetime.now()\<close>), the platform's conversion of a naive local
  datetime to seconds since the epoch (\<^verbatim>\<open>dt.timestamp()\<close>; the datetimes converted here
  have zero seconds and microseconds, so \<^verbatim>\<open>int(...)\<close> drops nothing), and the remote
  service (\<open>http_get E k p\<close> is the decoded answer to the \<open>k\<close>-th request when it carries
  the parameters \<open>p\<close>, or the exception raised by the transport or the decoder).
\<close>

record measure_json =
  text_field :: string
  value_field :: int

record element =
  el_status :: string
  distance :: "measure_json option"
  duration :: "measure_json option"

record row =
  elements :: "element list"

record response =
  status :: string
  error_message :: "string option"
  rows :: "row list"

record params =
  origins :: string
  destinations :: string
  mode_param :: string
  language :: string
  key :: string
  departure_time :: "int option"

record env =
  clock :: "nat \<Rightarrow> datetime"
  timestamp :: "datetime \<Rightarrow> int"
  http_get :: "nat \<Rightarrow> params \<Rightarrow> py_error + response"

text \<open>
  A concrete conversion for a zone with a fixed offset from UTC (in seconds), such as
  Korea Standard Time, \<open>32400\<close>.
\<close>

definition fixed_zone_timestamp :: "int \<Rightarrow> datetime \<Rightarrow> int" where
  "fixed_zone_timestamp off t =
     (int (toordinal (year t) (month t) (day t)) - int (toordinal 1970 1 1)) * 86400
       + int (hour t) * 3600 + int (minute t) * 60 + int (second t) - off"

section \<open>\<^verbatim>\<open>get_departure_timestamp\<close>\<close>

text \<open>
  Lines 18-27. The second argument is the number of clock readings taken so far; the
  result carries the new count. An empty \<^verbatim>\<open>date\<close> string is falsy and takes the
  \<open>None\<close> branch.
\<close>

definition get_departure_timestamp ::
  "env \<Rightarrow> nat \<Rightarrow> int \<Rightarrow> int \<Rightarrow> date option \<Rightarrow> (py_error + int) \<times> nat" where
  "get_departure_timestamp E reads hr mn dat =
     (case dat of
        Some d \<Rightarrow>
          (case strptime d hr mn of
             Inl e \<Rightarrow> (Inl e, reads)
           | Inr dt \<Rightarrow> (Inr (timestamp E dt), reads))
      | None \<Rightarrow>
          (let now = clock E reads in
           case replace_hm now hr mn of
             Inl e \<Rightarrow> (Inl e, Suc reads)
           | Inr dt \<Rightarrow>
               if dt_le dt now
               then (case add_one_day dt of
                       Inl e \<Rightarrow> (Inl e, Suc reads)
                     | Inr dt' \<Rightarrow> (Inr (timestamp E dt'), Suc reads))
               else (Inr (timestamp E dt), Suc reads)))"

section \<open>\<^verbatim>\<open>calculate_commute_times\<close>\<close>

text \<open>
  A roster entry is a dictionary with one key for the name and one for the address
  (Korean words in the source, \<open>name\<close> and \<open>address\<close> here; the caller checks at line
  167 that both columns exist).
  A row of the result table has the six columns of lines 75-92, in their order: name,
  address, distance text, distance in metres, duration text, duration in minutes.
\<close>

record student =
  name :: string
  address :: string

record result_row =
  col_name :: string
  col_address :: string
  col_distance :: string
  col_distance_m :: "int option"
  col_duration :: string
  col_duration_min :: "int option"

text \<open>
  The arguments of the call; \<open>progress_bar\<close> says whether a progress bar was passed.
\<close>

record args =
  students :: "student list"
  school_address :: string
  api_key :: string
  mode :: string
  departure_hour :: "int option"
  departure_minute :: int
  departure_date :: "date option"
  progress_bar :: bool

text \<open>
  What a run has done so far: the rows appended to \<^verbatim>\<open>results\<close>, the messages passed to
  \<^verbatim>\<open>st.error\<close>, the values passed to \<^verbatim>\<open>progress_bar.progress\<close>, the requests sent
  with the answers received, and the number of clock readings.
\<close>

record run_state =
  results :: "result_row list"
  shown_errors :: "string list"
  progress_values :: "rat list"
  exchanges :: "(params \<times> response) list"
  clock_reads :: nat

definition init_state :: run_state where
  "init_state = \<lparr>results = [], shown_errors = [], progress_values = [], exchanges = [],
                  clock_reads = 0\<rparr>"

definition batch_size :: nat where
  "batch_size = 25"

text \<open>
  The Korean word for "error" of the string literals at lines 67, 88 and 90, as its
  UTF-8 bytes.
\<close>

definition oryu :: string where
  "oryu = [CHR 0xEC, CHR 0x98, CHR 0xA4, CHR 0xEB, CHR 0xA5, CHR 0x98]"

text \<open>\<^verbatim>\<open>sep.join(xs)\<close>.\<close>

fun join :: "string \<Rightarrow> string list \<Rightarrow> string" where
  "join sep [] = []"
| "join sep [x] = x"
| "join sep (x # y # ys) = x @ sep @ join sep (y # ys)"

text \<open>\<^verbatim>\<open>xs[i:j]\<close> for indices that are not negative.\<close>

definition slice :: "'a list \<Rightarrow> nat \<Rightarrow> nat \<Rightarrow> 'a list" where
  "slice xs i j = take (j - i) (drop i xs)"

text \<open>\<^verbatim>\<open>range(i, n, batch_size)\<close>: the start index of every batch.\<close>

function batch_starts :: "nat \<Rightarrow> nat \<Rightarrow> nat list" where
  "batch_starts i n = (if i < n then i # batch_starts (i + batch_size) n else [])"
  by pat_completeness auto
termination
  by (relation "measure (\<lambda>(i, n). n - i)") (auto simp: batch_size_def)

declare batch_starts.simps [simp del]

text \<open>
  Lines 74-92: the row for one student and the first element of the student's response
  row. The dictionary literal reads \<^verbatim>\<open>element["distance"]\<close> before
  \<^verbatim>\<open>element["duration"]\<close>; \<^verbatim>\<open>//\<close> is floor division, as \<open>div\<close> on \<open>int\<close>.
\<close>

definition element_row :: "student \<Rightarrow> element \<Rightarrow> py_error + result_row" where
  "element_row s el =
     (if el_status el = ''OK'' then
        (case distance el of
           None \<Rightarrow> Inl (KeyError ''distance'')
         | Some dst \<Rightarrow>
             (case duration el of
                None \<Rightarrow> Inl (KeyError ''duration'')
              | Some dur \<Rightarrow>
                  Inr \<lparr>col_name = name s, col_address = address s,
                       col_distance = text_field dst,
                       col_distance_m = Some (value_field dst),
                       col_duration = text_field dur,
                       col_duration_min = Some (value_field dur div 60)\<rparr>))
      else
        (let error_status = el_status el in
         Inr \<lparr>col_name = name s, col_address = address s,
              col_distance = oryu @ '': '' @ error_status,
              col_distance_m = None,
              col_duration = oryu @ '': '' @ error_status,
              col_duration_min = None\<rparr>))"

text \<open>
  Lines 70-92: the loop over \<^verbatim>\<open>enumerate(data["rows"])\<close>. \<^verbatim>\<open>batch[j]\<close> is read first,
  then \<^verbatim>\<open>row["elements"][0]\<close>; each raises \<open>IndexError\<close> out of range.
\<close>

fun rows_loop ::
  "student list \<Rightarrow> (nat \<times> row) list \<Rightarrow> result_row list \<Rightarrow> result_row list \<times> py_error option"
where
  "rows_loop batch [] res = (res, None)"
| "rows_loop batch ((j, r) # rest) res =
     (if j < length batch then
        (case elements r of
           [] \<Rightarrow> (res, Some IndexError)
         | el # _ \<Rightarrow>
             (case element_row (batch ! j) el of
                Inl e \<Rightarrow> (res, Some e)
              | Inr new_row \<Rightarrow> rows_loop batch rest (res @ [new_row])))
      else (res, Some IndexError))"

text \<open>Lines 50-56: the request parameters of a batch, before the departure time.\<close>

definition base_params :: "args \<Rightarrow> student list \<Rightarrow> params" where
  "base_params A batch =
     (let addresses = map address batch in
      \<lparr>origins = join ''|'' addresses, destinations = school_address A,
       mode_param = mode A, language = ''ko'', key = api_key A, departure_time = None\<rparr>)"

text \<open>
  Lines 58-61: inside the loop body, \<^verbatim>\<open>get_departure_timestamp\<close> is called when a
  departure hour was given. The result is the parameters (or the exception) and the new
  count of clock readings.
\<close>

definition add_departure_time ::
  "env \<Rightarrow> args \<Rightarrow> nat \<Rightarrow> params \<Rightarrow> (py_error + params) \<times> nat" where
  "add_departure_time E A reads p =
     (case departure_hour A of
        None \<Rightarrow> (Inr p, reads)
      | Some h \<Rightarrow>
          (case get_departure_timestamp E reads h (departure_minute A) (departure_date A) of
             (Inl e, reads') \<Rightarrow> (Inl e, reads')
           | (Inr t, reads') \<Rightarrow> (Inr (p\<lparr>departure_time := Some t\<rparr>), reads')))"

text \<open>
  Line 67: the message passed to \<^verbatim>\<open>st.error\<close>;
  \<^verbatim>\<open>data.get('error_message', '')\<close> is the empty string when the key is absent.
\<close>

definition api_error_text :: "response \<Rightarrow> string" where
  "api_error_text data =
     ''API '' @ oryu @ '': '' @ status data @ '' - '' @
       (case error_message data of None \<Rightarrow> [] | Some m \<Rightarrow> m)"

text \<open>
  Lines 94-95: the progress update that ends an iteration; the quotient of the two
  integers is kept exact.
\<close>

definition report_progress :: "args \<Rightarrow> nat \<Rightarrow> nat \<Rightarrow> run_state \<Rightarrow> run_state \<times> py_error option" where
  "report_progress A total_batches batch_idx st =
     (if progress_bar A then
        (if total_batches = 0 then (st, Some ZeroDivisionError)
         else (st\<lparr>progress_values := progress_values st @
                     [of_nat (batch_idx + 1) / of_nat total_batches]\<rparr>, None))
      else (st, None))"

text \<open>
  Lines 47-95: one iteration of the outer loop, for the batch that starts at index
  \<open>i\<close>. The \<^verbatim>\<open>continue\<close> of line 68 ends the iteration right after \<^verbatim>\<open>st.error\<close>.
\<close>

definition batch_body ::
  "env \<Rightarrow> args \<Rightarrow> nat \<Rightarrow> nat \<Rightarrow> nat \<Rightarrow> run_state \<Rightarrow> run_state \<times> py_error option" where
  "batch_body E A total_batches batch_idx i st =
     (let batch = slice (students A) i (i + batch_size) in
      case add_departure_time E A (clock_reads st) (base_params A batch) of
        (Inl e, reads) \<Rightarrow> (st\<lparr>clock_reads := reads\<rparr>, Some e)
      | (Inr p, reads) \<Rightarrow>
          (case http_get E (length (exchanges st)) p of
             Inl e \<Rightarrow> (st\<lparr>clock_reads := reads\<rparr>, Some e)
           | Inr data \<Rightarrow>
               (let st1 = st\<lparr>clock_reads := reads, exchanges := exchanges st @ [(p, data)]\<rparr> in
                if status data \<noteq> ''OK'' then
                  (st1\<lparr>shown_errors := shown_errors st1 @ [api_error_text data]\<rparr>, None)
                else
                  (case rows_loop batch (enumerate 0 (rows data)) (results st1) of
                     (res, Some e) \<Rightarrow> (st1\<lparr>results := res\<rparr>, Some e)
                   | (res, None) \<Rightarrow>
                       report_progress A total_batches batch_idx (st1\<lparr>results := res\<rparr>)))))"

text \<open>Lines 46-95: the outer loop; an exception ends it.\<close>

fun batch_loop ::
  "env \<Rightarrow> args \<Rightarrow> nat \<Rightarrow> (nat \<times> nat) list \<Rightarrow> run_state \<Rightarrow> run_state \<times> py_error option"
where
  "batch_loop E A total_batches [] st = (st, None)"
| "batch_loop E A total_batches ((batch_idx, i) # rest) st =
     (case batch_body E A total_batches batch_idx i st of
        (st', Some e) \<Rightarrow> (st', Some e)
      | (st', None) \<Rightarrow> batch_loop E A total_batches rest st')"

text \<open>
  Lines 42-97, with everything the run did; \<^verbatim>\<open>calculate_commute_times\<close> is the value
  the caller gets: the result table, or the exception.
\<close>

definition run_commute_times :: "env \<Rightarrow> args \<Rightarrow> run_state \<times> py_error option" where
  "run_commute_times E A =
     (let total_batches = (length (students A) + batch_size - 1) div batch_size in
      batch_loop E A total_batches
        (enumerate 0 (batch_starts 0 (length (students A)))) init_state)"

definition calculate_commute_times :: "env \<Rightarrow> args \<Rightarrow> py_error + result_row list" where
  "calculate_commute_times E A =
     (case run_commute_times E A of
        (st, None) \<Rightarrow> Inr (results st)
      | (st, Some e) \<Rightarrow> Inl e)"

text \<open>The batches of a roster, in the order the loop visits them.\<close>

definition batches :: "student list \<Rightarrow> student list list" where
  "batches ss = map (\<lambda>i. slice ss i (i + batch_size)) (batch_starts 0 (length ss))"

text \<open>
  A response row the loop body can process: it has a first element, and an element whose
  status is \<^verbatim>\<open>"OK"\<close> carries its distance and its duration.
\<close>

definition row_ok :: "row \<Rightarrow> bool" where
  "row_ok r =
     (case elements r of
        [] \<Rightarrow> False
      | el # _ \<Rightarrow> el_status el = ''OK'' \<longrightarrow> distance el \<noteq> None \<and> duration el \<noteq> None)"

text \<open>The row written for an element whose status is not \<^verbatim>\<open>"OK"\<close> (lines 85-92).\<close>

definition failure_row :: "student \<Rightarrow> string \<Rightarrow> result_row" where
  "failure_row s error_status =
     \<lparr>col_name = name s, col_address = address s,
      col_distance = oryu @ '': '' @ error_status, col_distance_m = None,
      col_duration = oryu @ '': '' @ error_status, col_duration_min = None\<rparr>"

text \<open>
  An answer that keeps to the service's contract for a batch: when its status is
  \<^verbatim>\<open>"OK"\<close> it has one row per origin, and every row can be processed. A service conforms
  for a roster when it answers the request of every batch, whatever its parameters, with
  such an answer.
\<close>

definition conforms :: "student list \<Rightarrow> response \<Rightarrow> bool" where
  "conforms batch r =
     (status r = ''OK'' \<longrightarrow> length (rows r) = length batch \<and> (\<forall>w\<in>set (rows r). row_ok w))"

definition conforming :: "env \<Rightarrow> student list \<Rightarrow> bool" where
  "conforming E ss =
     (\<forall>k p. k < length (batches ss) \<longrightarrow>
        (\<exists>r. http_get E k p = Inr r \<and> conforms (batches ss ! k) r))"

text \<open>
  The departure time of the call can be resolved at every clock reading (there is
  nothing to resolve when no hour is given).
\<close>

definition resolves :: "env \<Rightarrow> args \<Rightarrow> bool" where
  "resolves E A =
     (\<forall>h k. departure_hour A = Some h \<longrightarrow>
        (\<exists>t. fst (get_departure_timestamp E k h (departure_minute A) (departure_date A)) =
               Inr t))"

text \<open>
  The number of rows the loop writes for a list of answers when every iteration
  completes: the rows of the answers with status \<^verbatim>\<open>"OK"\<close>, none for the others.
\<close>

definition rows_written :: "(params \<times> response) list \<Rightarrow> nat" where
  "rows_written exs =
     sum_list (map (\<lambda>x. if status (snd x) = ''OK'' then length (rows (snd x)) else 0) exs)"

text \<open>
  Every element of every answer with status \<^verbatim>\<open>"OK"\<close> has its row in the table: element
  \<open>j\<close> of answer \<open>b\<close> belongs to student \<open>25 * b + j\<close> of the roster, and the row made from
  them stands after the rows written for the earlier answers.
\<close>

definition rows_placed ::
  "student list \<Rightarrow> (params \<times> response) list \<Rightarrow> result_row list \<Rightarrow> bool" where
  "rows_placed ss exs res =
     (\<forall>b<length exs. status (snd (exs ! b)) = ''OK'' \<longrightarrow>
        (\<forall>j<length (rows (snd (exs ! b))).
           \<exists>el els. elements (rows (snd (exs ! b)) ! j) = el # els \<and>
             b * batch_size + j < length ss \<and>
             rows_written (take b exs) + j < length res \<and>
             element_row (ss ! (b * batch_size + j)) el =
               Inr (res ! (rows_written (take b exs) + j))))"

section \<open>Sample inputs\<close>

text \<open>
  A roster of three, and the response rows of the scenario with element statuses
  \<^verbatim>\<open>OK\<close>, \<^verbatim>\<open>NOT_FOUND\<close>, \<^verbatim>\<open>OK\<close>.
\<close>

definition kim :: student where
  "kim = \<lparr>name = ''Kim'', address = ''Seoul 123''\<rparr>"

definition lee :: student where
  "lee = \<lparr>name = ''Lee'', address = ''Seongnam 456''\<rparr>"

definition park :: student where
  "park = \<lparr>name = ''Park'', address = ''Incheon 789''\<rparr>"

definition roster3 :: "student list" where
  "roster3 = [kim, lee, park]"

definition el_ok :: element where
  "el_ok = \<lparr>el_status = ''OK'',
            distance = Some \<lparr>text_field = ''1.2 km'', value_field = 1200\<rparr>,
            duration = Some \<lparr>text_field = ''2 mins'', value_field = 119\<rparr>\<rparr>"

definition el_not_found :: element where
  "el_not_found = \<lparr>el_status = ''NOT_FOUND'', distance = None, duration = None\<rparr>"

definition rows3 :: "row list" where
  "rows3 = [\<lparr>elements = [el_ok]\<rparr>, \<lparr>elements = [el_not_found]\<rparr>, \<lparr>elements = [el_ok]\<rparr>]"

text \<open>
  Two services: one that refuses every request, one that answers every request with the
  three rows above. The clock stands at noon of 2024-01-01, Korea Standard Time.
\<close>

definition kst :: "datetime \<Rightarrow> int" where
  "kst = fixed_zone_timestamp 32400"

definition noon :: datetime where
  "noon = \<lparr>year = 2024, month = 1, day = 1, hour = 12, minute = 0, second = 0,
           microsecond = 0\<rparr>"

definition resp_denied :: response where
  "resp_denied = \<lparr>status = ''REQUEST_DENIED'',
                  error_message = Some ''The provided API key is invalid.'', rows = []\<rparr>"

definition resp3 :: response where
  "resp3 = \<lparr>status = ''OK'', error_message = None, rows = rows3\<rparr>"

definition env_denied :: env where
  "env_denied = \<lparr>clock = (\<lambda>k. noon), timestamp = kst, http_get = (\<lambda>k p. Inr resp_denied)\<rparr>"

definition env3 :: env where
  "env3 = \<lparr>clock = (\<lambda>k. noon), timestamp = kst, http_get = (\<lambda>k p. Inr resp3)\<rparr>"

definition args3 :: args where
  "args3 = \<lparr>students = roster3, school_address = ''School'', api_key = ''KEY'',
            mode = ''transit'', departure_hour = None, departure_minute = 0,
            departure_date = None, progress_bar = True\<rparr>"

text \<open>An answer with one row fewer than the roster of three.\<close>

definition rows2 :: "row list" where
  "rows2 = [\<lparr>elements = [el_ok]\<rparr>, \<lparr>elements = [el_not_found]\<rparr>]"

text \<open>The table expected for the roster of three and the three rows.\<close>

definition table3 :: "result_row list" where
  "table3 =
     [\<lparr>col_name = ''Kim'', col_address = ''Seoul 123'', col_distance = ''1.2 km'',
       col_distance_m = Some 1200, col_duration = ''2 mins'', col_duration_min = Some 1\<rparr>,
      \<lparr>col_name = ''Lee'', col_address = ''Seongnam 456'',
       col_distance = oryu @ '': NOT_FOUND'', col_distance_m = None,
       col_duration = oryu @ '': NOT_FOUND'', col_duration_min = None\<rparr>,
      \<lparr>col_name = ''Park'', col_address = ''Incheon 789'', col_distance = ''1.2 km'',
       col_distance_m = Some 1200, col_duration = ''2 mins'', col_duration_min = Some 1\<rparr>]"

text \<open>Two clocks of 2024-01-01, at 09:00:00 and at 07:00:00, and a date.\<close>

definition nine_am :: datetime where
  "nine_am = \<lparr>year = 2024, month = 1, day = 1, hour = 9, minute = 0, second = 0,
              microsecond = 0\<rparr>"

definition seven_am :: datetime where
  "seven_am = \<lparr>year = 2024, month = 1, day = 1, hour = 7, minute = 0, second = 0,
               microsecond = 0\<rparr>"

definition env_nine :: env where
  "env_nine = \<lparr>clock = (\<lambda>k. nine_am), timestamp = kst, http_get = (\<lambda>k p. Inr resp3)\<rparr>"

definition march15 :: date where
  "march15 = \<lparr>year = 2024, month = 3, day = 15\<rparr>"

text \<open>
  A service that is a function of the request alone: it answers with the three rows when
  asked for a departure at 2024-01-01T08:00:00 Korea Standard Time and refuses any other
  request. Two environments use it, one with the clock at 07:00:00 and one at 09:00:00.
  The calls ask for a departure at hour 8, without a date and with one.
\<close>

definition api_timed :: "params \<Rightarrow> py_error + response" where
  "api_timed p = (if departure_time p = Some 1704063600 then Inr resp3 else Inr resp_denied)"

definition env_early :: env where
  "env_early = \<lparr>clock = (\<lambda>k. seven_am), timestamp = kst, http_get = (\<lambda>k. api_timed)\<rparr>"

definition env_late :: env where
  "env_late = \<lparr>clock = (\<lambda>k. nine_am), timestamp = kst, http_get = (\<lambda>k. api_timed)\<rparr>"

definition args8 :: args where
  "args8 = \<lparr>students = roster3, school_address = ''School'', api_key = ''KEY'',
            mode = ''transit'', departure_hour = Some 8, departure_minute = 0,
            departure_date = None, progress_bar = True\<rparr>"

definition args8_dated :: args where
  "args8_dated = \<lparr>students = roster3, school_address = ''School'', api_key = ''KEY'',
                  mode = ''transit'', departure_hour = Some 8, departure_minute = 0,
                  departure_date = Some march15, progress_bar = True\<rparr>"

text \<open>
  A roster of 26 (two batches), a clock that shows 07:59:59 at its first reading and
  08:00:01 afterwards, and a call that asks for a departure at hour 8 without a date.
\<close>

definition roster26 :: "student list" where
  "roster26 = replicate 25 kim @ [lee]"

definition just_before :: datetime where
  "just_before = \<lparr>year = 2024, month = 1, day = 1, hour = 7, minute = 59, second = 59,
                  microsecond = 0\<rparr>"

definition just_after :: datetime where
  "just_after = \<lparr>year = 2024, month = 1, day = 1, hour = 8, minute = 0, second = 1,
                 microsecond = 0\<rparr>"

definition env_tick :: env where
  "env_tick = \<lparr>clock = (\<lambda>k. if k = 0 then just_before else just_after), timestamp = kst,
               http_get = (\<lambda>k p. Inr resp_denied)\<rparr>"

definition args26 :: args where
  "args26 = \<lparr>students = roster26, school_address = ''School'', api_key = ''KEY'',
             mode = ''transit'', departure_hour = Some 8, departure_minute = 0,
             departure_date = None, progress_bar = True\<rparr>"

section \<open>Calendar arithmetic\<close>

lemma days_before_month_next:
  assumes "1 \<le> m" "m < 12"
  shows "days_before_month y (m + 1) = days_before_month y m + days_in_month y m"
proof -
  from assms have "m = 1 \<or> m = 2 \<or> m = 3 \<or> m = 4 \<or> m = 5 \<or> m = 6 \<or> m = 7 \<or> m = 8 \<or> m = 9 \<or> m = 10 \<or> m = 11"
    by arith
  then show ?thesis
    by (elim disjE) (simp_all add: days_before_month_def days_in_month_def)
qed

lemma days_before_december:
  "days_before_month y 12 + days_in_month y 12 = (if is_leap y then 366 else 365)"
  by (simp add: days_before_month_def days_in_month_def)

lemma leap_step_arith:
  fixes a b c a' b' c' p :: nat
  assumes "b \<le> a"
    and "a' = (if l4 then a + 1 else a)"
    and "b' = (if l100 then b + 1 else b)"
    and "c' = (if l400 then c + 1 else c)"
    and "l100 \<Longrightarrow> l4" and "l400 \<Longrightarrow> l100"
  shows "Suc p * 365 + a' - b' + c' =
         p * 365 + a - b + c + (if l4 \<and> (\<not> l100 \<or> l400) then 366 else 365)"
  using assms by (cases l4; cases l100; cases l400) simp_all

lemma days_before_year_next:
  assumes "1 \<le> y"
  shows "days_before_year (y + 1) = days_before_year y + (if is_leap y then 366 else 365)"
proof -
  obtain p where y: "y = Suc p" using assms by (cases y) auto
  have le: "p div 100 \<le> p div 4" by (rule div_le_mono2) simp_all
  have m1: "Suc p mod 100 = 0 \<Longrightarrow> Suc p mod 4 = 0" by presburger
  have m2: "Suc p mod 400 = 0 \<Longrightarrow> Suc p mod 100 = 0" by presburger
  have d4: "Suc p div 4 = (if Suc p mod 4 = 0 then p div 4 + 1 else p div 4)" by (simp add: div_Suc)
  have d100: "Suc p div 100 = (if Suc p mod 100 = 0 then p div 100 + 1 else p div 100)" by (simp add: div_Suc)
  have d400: "Suc p div 400 = (if Suc p mod 400 = 0 then p div 400 + 1 else p div 400)" by (simp add: div_Suc)
  have "Suc p * 365 + Suc p div 4 - Suc p div 100 + Suc p div 400 =
        p * 365 + p div 4 - p div 100 + p div 400 +
          (if Suc p mod 4 = 0 \<and> (\<not> Suc p mod 100 = 0 \<or> Suc p mod 400 = 0) then 366 else 365)"
    by (rule leap_step_arith [OF le d4 d100 d400 m1 m2])
  then show ?thesis
    by (simp only: days_before_year_def is_leap_def Let_def y add_diff_cancel_right' diff_Suc_1)
qed

lemma add_one_day_ordinal:
  assumes v: "valid_ymd (year t) (month t) (day t)" and a: "add_one_day t = Inr t'"
  shows "valid_ymd (year t') (month t') (day t') \<and>
         toordinal (year t') (month t') (day t') = toordinal (year t) (month t) (day t) + 1 \<and>
         hour t' = hour t \<and> minute t' = minute t \<and> second t' = second t \<and>
         microsecond t' = microsecond t"
proof -
  from v have y1: "1 \<le> year t" and m1: "1 \<le> month t" and m12: "month t \<le> 12"
    and d1: "1 \<le> day t" and dm: "day t \<le> days_in_month (year t) (month t)"
    by (simp_all add: valid_ymd_def)
  have pos: "1 \<le> days_in_month y m" for y m by (simp add: days_in_month_def)
  consider (d) "day t < days_in_month (year t) (month t)"
    | (m) "day t = days_in_month (year t) (month t)" "month t < 12"
    | (y) "day t = days_in_month (year t) (month t)" "month t = 12" "year t < 9999"
    | (o) "day t = days_in_month (year t) (month t)" "month t = 12" "year t \<ge> 9999"
    using dm m12 by linarith
  then show ?thesis
  proof cases
    case d
    with a have "t' = t\<lparr>day := day t + 1\<rparr>" by (simp add: add_one_day_def)
    with d v show ?thesis by (simp add: valid_ymd_def toordinal_def)
  next
    case m
    with a have t': "t' = t\<lparr>month := month t + 1, day := 1\<rparr>" by (simp add: add_one_day_def)
    have "days_before_month (year t) (month t + 1) =
          days_before_month (year t) (month t) + days_in_month (year t) (month t)"
      using m1 m(2) by (rule days_before_month_next)
    with t' m v pos show ?thesis by (simp add: valid_ymd_def toordinal_def)
  next
    case y
    with a have t': "t' = t\<lparr>year := year t + 1, month := 1, day := 1\<rparr>"
      by (simp add: add_one_day_def)
    have e: "days_before_year (year t + 1) = days_before_year (year t) + (if is_leap (year t) then 366 else 365)"
      using y1 by (rule days_before_year_next)
    have f: "days_before_month (year t) 12 + days_in_month (year t) 12 = (if is_leap (year t) then 366 else 365)"
      by (rule days_before_december)
    have g: "days_before_month (year t + 1) 1 = 0" by (simp add: days_before_month_def)
    have h: "days_in_month (year t + 1) 1 = 31" by (simp add: days_in_month_def)
    from t' y v e f g h show ?thesis by (simp add: valid_ymd_def toordinal_def)
  next
    case o
    with a show ?thesis by (simp add: add_one_day_def)
  qed
qed

section \<open>The partition into batches\<close>

lemma batch_starts_stop: "\<not> i < n \<Longrightarrow> batch_starts i n = []"
  by (subst batch_starts.simps) (simp only: if_False)

lemma batch_starts_go: "i < n \<Longrightarrow> batch_starts i n = i # batch_starts (i + batch_size) n"
  by (subst batch_starts.simps) (simp only: if_True)

lemma batch_starts_concat:
  "n = length ss \<Longrightarrow> concat (map (\<lambda>i. slice ss i (i + batch_size)) (batch_starts i n)) = drop i ss"
proof (induction i n rule: batch_starts.induct)
  case (1 i n)
  show ?case
  proof (cases "i < n")
    case True
    have ih: "concat (map (\<lambda>i. slice ss i (i + batch_size)) (batch_starts (i + batch_size) n)) =
              drop (i + batch_size) ss"
      using 1 True by simp
    have "drop (i + batch_size) ss = drop batch_size (drop i ss)"
      by (simp only: drop_drop add.commute)
    then have "slice ss i (i + batch_size) @ drop (i + batch_size) ss = drop i ss"
      by (simp only: slice_def add_diff_cancel_left' append_take_drop_id)
    with batch_starts_go [OF True] ih show ?thesis by simp
  next
    case False
    with 1 batch_starts_stop [OF False] show ?thesis by simp
  qed
qed

lemma count_step_25:
  fixes i n :: nat
  assumes "i < n"
  shows "(n - i + 25 - 1) div 25 = Suc ((n - (i + 25) + 25 - 1) div 25)"
proof (cases "i + 25 \<le> n")
  case True
  then obtain d where d: "n = i + 25 + d" using le_Suc_ex by blast
  have "(d + 25 + 24) div 25 = Suc ((d + 24) div 25)"
    by (metis add.assoc add.commute div_add_self1 zero_neq_numeral plus_1_eq_Suc)
  with d show ?thesis by simp
next
  case False
  from assms obtain d where d: "n = Suc (i + d)" using less_imp_Suc_add by blast
  from False d have "d < 24" by arith
  with d show ?thesis by simp
qed

lemma batch_count_step:
  "i < n \<Longrightarrow> (n - i + batch_size - 1) div batch_size =
         Suc ((n - (i + batch_size) + batch_size - 1) div batch_size)"
  unfolding batch_size_def by (rule count_step_25)

lemma count_zero: "\<not> i < n \<Longrightarrow> (n - i + batch_size - 1) div batch_size = 0"
proof -
  assume "\<not> i < n"
  then have "n - i = 0" by arith
  then show ?thesis by (simp add: batch_size_def)
qed

lemma batch_starts_map:
  "batch_starts i n = map (\<lambda>k. i + k * batch_size) [0..<(n - i + batch_size - 1) div batch_size]"
proof (induction i n rule: batch_starts.induct)
  case (1 i n)
  show ?case
  proof (cases "i < n")
    case True
    let ?m = "(n - (i + batch_size) + batch_size - 1) div batch_size"
    have "batch_starts i n = i # batch_starts (i + batch_size) n"
      using True by (rule batch_starts_go)
    also have "batch_starts (i + batch_size) n = map (\<lambda>k. i + batch_size + k * batch_size) [0..<?m]"
      using 1 True by blast
    also have "i # map (\<lambda>k. i + batch_size + k * batch_size) [0..<?m] = map (\<lambda>k. i + k * batch_size) [0..<Suc ?m]"
      by (subst map_upt_Suc) (simp add: add.assoc)
    finally show ?thesis by (simp only: batch_count_step [OF True])
  next
    case False
    from batch_starts_stop [OF False] count_zero [OF False] show ?thesis by simp
  qed
qed

lemma batch_index_less:
  "k < (n + batch_size - 1) div batch_size \<longleftrightarrow> k * batch_size < n"
proof -
  have "(n + 25 - 1) div 25 < Suc k \<longleftrightarrow> n + 25 - 1 < Suc k * 25"
    by (rule div_less_iff_less_mult) simp
  then have "k < (n + 25 - 1) div 25 \<longleftrightarrow> k * 25 < n" by arith
  then show ?thesis by (simp only: batch_size_def)
qed

lemma batches_eq:
  "batches ss = map (\<lambda>k. take batch_size (drop (k * batch_size) ss))
                  [0..<(length ss + batch_size - 1) div batch_size]"
proof -
  have "batch_starts 0 (length ss) =
        map (\<lambda>k. k * batch_size) [0..<(length ss + batch_size - 1) div batch_size]"
    using batch_starts_map [of 0 "length ss"] by simp
  then show ?thesis by (simp add: batches_def slice_def comp_def)
qed

lemma length_batches: "length (batches ss) = (length ss + batch_size - 1) div batch_size"
  by (simp add: batches_eq)

lemma nth_batches:
  "k < length (batches ss) \<Longrightarrow> batches ss ! k = take batch_size (drop (k * batch_size) ss)"
  by (simp add: batches_eq)

lemma concat_batches: "concat (batches ss) = ss"
  using batch_starts_concat [of "length ss" ss 0] by (simp add: batches_def)

lemma length_nth_batch:
  assumes "k < length (batches ss)"
  shows "1 \<le> length (batches ss ! k)" and "length (batches ss ! k) \<le> batch_size"
    and "Suc k < length (batches ss) \<Longrightarrow> length (batches ss ! k) = batch_size"
proof -
  from assms have lt: "k * batch_size < length ss"
    by (simp only: length_batches batch_index_less)
  have len: "length (batches ss ! k) = min batch_size (length ss - k * batch_size)"
    using assms by (simp add: nth_batches min.commute)
  from lt len show "1 \<le> length (batches ss ! k)" by (simp add: batch_size_def)
  from len show "length (batches ss ! k) \<le> batch_size" by simp
  assume "Suc k < length (batches ss)"
  then have "Suc k * batch_size < length ss"
    by (simp only: length_batches batch_index_less)
  with len show "length (batches ss ! k) = batch_size" by simp
qed

lemma batches_60:
  assumes "length ss = 60"
  shows "map length (batches ss) = [25, 25, 10]"
proof -
  have "[0..<(60 + 25 - 1) div 25] = [0, 1, Suc (Suc 0)]"
    by (simp add: upt_rec)
  with assms show ?thesis
    by (simp add: batches_eq batch_size_def comp_def)
qed

section \<open>The loop over the rows of a response\<close>

lemma element_row_failure:
  "el_status el \<noteq> ''OK'' \<Longrightarrow> element_row s el = Inr (failure_row s (el_status el))"
  by (simp add: element_row_def failure_row_def Let_def)

lemma element_row_success:
  "el_status el = ''OK'' \<Longrightarrow> distance el = Some dst \<Longrightarrow> duration el = Some dur \<Longrightarrow>
   element_row s el =
     Inr \<lparr>col_name = name s, col_address = address s, col_distance = text_field dst,
          col_distance_m = Some (value_field dst), col_duration = text_field dur,
          col_duration_min = Some (value_field dur div 60)\<rparr>"
  by (simp add: element_row_def)

lemma element_row_total:
  assumes "el_status el = ''OK'' \<longrightarrow> distance el \<noteq> None \<and> duration el \<noteq> None"
  shows "\<exists>nr. element_row s el = Inr nr"
proof (cases "el_status el = ''OK''")
  case True
  with assms obtain dst dur where "distance el = Some dst" "duration el = Some dur" by auto
  with True show ?thesis by (simp add: element_row_success)
next
  case False
  then show ?thesis by (simp add: element_row_failure)
qed

lemma rows_loop_step:
  assumes "j < length batch" and "elements r = el # els"
    and "element_row (batch ! j) el = Inr nr"
  shows "rows_loop batch ((j, r) # rest) res = rows_loop batch rest (res @ [nr])"
  using assms by simp

lemma rows_loop_None:
  assumes "rows_loop batch (enumerate j rs) res = (res', None)"
  shows "\<exists>new. res' = res @ new \<and> length new = length rs \<and>
           (rs \<noteq> [] \<longrightarrow> j + length rs \<le> length batch) \<and>
           (\<forall>k<length rs. \<exists>el els. elements (rs ! k) = el # els \<and>
                element_row (batch ! (j + k)) el = Inr (new ! k))"
  using assms
proof (induction rs arbitrary: j res)
  case Nil
  then show ?case by simp
next
  case (Cons r rs)
  from Cons.prems have jl: "j < length batch"
    by (simp split: if_splits)
  from Cons.prems jl obtain el els where e: "elements r = el # els"
    by (cases "elements r") auto
  from Cons.prems jl e obtain nr where n: "element_row (batch ! j) el = Inr nr"
    by (cases "element_row (batch ! j) el") auto
  from Cons.prems jl e n
  have rec: "rows_loop batch (enumerate (Suc j) rs) (res @ [nr]) = (res', None)"
    by simp
  from Cons.IH [OF rec] obtain new where
    r': "res' = (res @ [nr]) @ new" and len: "length new = length rs"
    and bound: "rs \<noteq> [] \<longrightarrow> Suc j + length rs \<le> length batch"
    and each: "\<forall>k<length rs. \<exists>el els. elements (rs ! k) = el # els \<and>
                 element_row (batch ! (Suc j + k)) el = Inr (new ! k)"
    by blast
  have b: "j + length (r # rs) \<le> length batch"
    using jl bound by (cases rs) auto
  have "\<exists>el els. elements ((r # rs) ! k) = el # els \<and>
          element_row (batch ! (j + k)) el = Inr ((nr # new) ! k)"
    if "k < length (r # rs)" for k
  proof (cases k)
    case 0
    with e n show ?thesis by simp
  next
    case (Suc k')
    with that each show ?thesis by simp
  qed
  with r' len b show ?case
    by (intro exI [of _ "nr # new"]) simp
qed

lemma rows_loop_conforming:
  assumes "j + length rs \<le> length batch" and "\<forall>r\<in>set rs. row_ok r"
  shows "\<exists>new. rows_loop batch (enumerate j rs) res = (res @ new, None) \<and>
           length new = length rs"
  using assms
proof (induction rs arbitrary: j res)
  case Nil
  then show ?case by simp
next
  case (Cons r rs)
  from Cons.prems have jl: "j < length batch" by simp
  from Cons.prems have "row_ok r" by simp
  then obtain el els where e: "elements r = el # els"
    and ok: "el_status el = ''OK'' \<longrightarrow> distance el \<noteq> None \<and> duration el \<noteq> None"
    by (cases "elements r") (auto simp: row_ok_def)
  from element_row_total [OF ok] obtain nr where n: "element_row (batch ! j) el = Inr nr"
    by blast
  from Cons.prems have "Suc j + length rs \<le> length batch" "\<forall>r\<in>set rs. row_ok r" by simp_all
  from Cons.IH [OF this] obtain new where
    "rows_loop batch (enumerate (Suc j) rs) (res @ [nr]) = ((res @ [nr]) @ new, None)"
    "length new = length rs" by blast
  with jl e n show ?case
    by (intro exI [of _ "nr # new"]) simp
qed

lemma rows_loop_too_many:
  assumes "j \<le> length batch" and "length batch < j + length rs" and "\<forall>r\<in>set rs. row_ok r"
  shows "\<exists>res'. rows_loop batch (enumerate j rs) res = (res', Some IndexError)"
  using assms
proof (induction rs arbitrary: j res)
  case Nil
  then show ?case by simp
next
  case (Cons r rs)
  show ?case
  proof (cases "j < length batch")
    case False
    then show ?thesis by simp
  next
    case True
    from Cons.prems have "row_ok r" by simp
    then obtain el els where e: "elements r = el # els"
      and ok: "el_status el = ''OK'' \<longrightarrow> distance el \<noteq> None \<and> duration el \<noteq> None"
      by (cases "elements r") (auto simp: row_ok_def)
    from element_row_total [OF ok] obtain nr where n: "element_row (batch ! j) el = Inr nr"
      by blast
    from True Cons.prems have "Suc j \<le> length batch" "length batch < Suc j + length rs"
      "\<forall>r\<in>set rs. row_ok r" by simp_all
    from Cons.IH [OF this] obtain res' where
      "rows_loop batch (enumerate (Suc j) rs) (res @ [nr]) = (res', Some IndexError)" by blast
    with True e n show ?thesis by simp
  qed
qed

section \<open>One iteration of the outer loop\<close>

lemma rows_loop_first_element:
  "rows_loop batch (enumerate j (map (\<lambda>r. r\<lparr>elements := take 1 (elements r)\<rparr>) rs)) res =
   rows_loop batch (enumerate j rs) res"
proof (induction rs arbitrary: j res)
  case Nil
  show ?case by simp
next
  case (Cons r rs)
  show ?case
  proof (cases "elements r")
    case Nil
    then show ?thesis by simp
  next
    case (Cons el els)
    with Cons.IH show ?thesis
      by (cases "element_row (batch ! j) el") simp_all
  qed
qed

lemma report_progress_keeps:
  "results (fst (report_progress A tb idx st)) = results st"
  "shown_errors (fst (report_progress A tb idx st)) = shown_errors st"
  "exchanges (fst (report_progress A tb idx st)) = exchanges st"
  "clock_reads (fst (report_progress A tb idx st)) = clock_reads st"
  by (simp_all add: report_progress_def)

lemma report_progress_None:
  "tb \<noteq> 0 \<Longrightarrow> snd (report_progress A tb idx st) = None"
  by (simp add: report_progress_def)

lemma batch_body_not_ok:
  assumes "add_departure_time E A (clock_reads st)
             (base_params A (slice (students A) i (i + batch_size))) = (Inr p, reads)"
    and "http_get E (length (exchanges st)) p = Inr data"
    and "status data \<noteq> ''OK''"
  shows "batch_body E A tb idx i st =
           (st\<lparr>clock_reads := reads, exchanges := exchanges st @ [(p, data)],
               shown_errors := shown_errors st @ [api_error_text data]\<rparr>, None)"
  using assms by (simp add: batch_body_def Let_def)

lemma batch_body_ok:
  assumes "add_departure_time E A (clock_reads st)
             (base_params A (slice (students A) i (i + batch_size))) = (Inr p, reads)"
    and "http_get E (length (exchanges st)) p = Inr data"
    and "status data = ''OK''"
  shows "batch_body E A tb idx i st =
           (case rows_loop (slice (students A) i (i + batch_size)) (enumerate 0 (rows data))
                   (results st) of
              (res, Some e) \<Rightarrow>
                (st\<lparr>clock_reads := reads, exchanges := exchanges st @ [(p, data)],
                    results := res\<rparr>, Some e)
            | (res, None) \<Rightarrow>
                report_progress A tb idx
                  (st\<lparr>clock_reads := reads, exchanges := exchanges st @ [(p, data)],
                      results := res\<rparr>))"
  using assms by (simp add: batch_body_def Let_def)

lemma batch_body_ok_fields:
  assumes "add_departure_time E A (clock_reads st)
             (base_params A (slice (students A) i (i + batch_size))) = (Inr p, reads)"
    and "http_get E (length (exchanges st)) p = Inr data"
    and "status data = ''OK''"
  shows "shown_errors (fst (batch_body E A tb idx i st)) = shown_errors st"
    and "exchanges (fst (batch_body E A tb idx i st)) = exchanges st @ [(p, data)]"
    and "clock_reads (fst (batch_body E A tb idx i st)) = reads"
    and "results (fst (batch_body E A tb idx i st)) =
           fst (rows_loop (slice (students A) i (i + batch_size)) (enumerate 0 (rows data))
                  (results st))"
proof -
  obtain res r where rl: "rows_loop (slice (students A) i (i + batch_size))
      (enumerate 0 (rows data)) (results st) = (res, r)" by (cases "rows_loop (slice (students A) i (i + batch_size))
      (enumerate 0 (rows data)) (results st)")
  note b = batch_body_ok [OF assms, of tb idx]
  show "shown_errors (fst (batch_body E A tb idx i st)) = shown_errors st"
    using b rl by (cases r) (simp_all add: report_progress_keeps)
  show "exchanges (fst (batch_body E A tb idx i st)) = exchanges st @ [(p, data)]"
    using b rl by (cases r) (simp_all add: report_progress_keeps)
  show "clock_reads (fst (batch_body E A tb idx i st)) = reads"
    using b rl by (cases r) (simp_all add: report_progress_keeps)
  show "results (fst (batch_body E A tb idx i st)) =
           fst (rows_loop (slice (students A) i (i + batch_size)) (enumerate 0 (rows data))
                  (results st))"
    using b rl by (cases r) (simp_all add: report_progress_keeps)
qed

lemma batch_body_ok_None:
  assumes "add_departure_time E A (clock_reads st)
             (base_params A (slice (students A) i (i + batch_size))) = (Inr p, reads)"
    and "http_get E (length (exchanges st)) p = Inr data"
    and "status data = ''OK''"
    and "snd (batch_body E A tb idx i st) = None"
  shows "snd (rows_loop (slice (students A) i (i + batch_size)) (enumerate 0 (rows data))
                  (results st)) = None"
proof -
  obtain res r where rl: "rows_loop (slice (students A) i (i + batch_size))
      (enumerate 0 (rows data)) (results st) = (res, r)" by (cases "rows_loop (slice (students A) i (i + batch_size))
      (enumerate 0 (rows data)) (results st)")
  from batch_body_ok [OF assms(1-3), of tb idx] rl assms(4) show ?thesis
    by (cases r) simp_all
qed

lemma batch_body_ok_done:
  assumes "add_departure_time E A (clock_reads st)
             (base_params A (slice (students A) i (i + batch_size))) = (Inr p, reads)"
    and "http_get E (length (exchanges st)) p = Inr data"
    and "status data = ''OK''"
    and "rows_loop (slice (students A) i (i + batch_size)) (enumerate 0 (rows data))
           (results st) = (res, None)"
  shows "batch_body E A tb idx i st =
           report_progress A tb idx
             (st\<lparr>clock_reads := reads, exchanges := exchanges st @ [(p, data)],
                 results := res\<rparr>)"
  using batch_body_ok [OF assms(1-3), of tb idx] assms(4) by simp

section \<open>The sample runs\<close>

lemma args3_fields:
  "students args3 = roster3" "departure_hour args3 = None" "progress_bar args3"
  by (simp_all add: args3_def)

lemma args3_slice: "slice (students args3) 0 (0 + batch_size) = roster3"
  unfolding args3_fields by (simp add: slice_def batch_size_def roster3_def)

lemma args3_departure:
  "add_departure_time E args3 (clock_reads init_state)
     (base_params args3 (slice (students args3) 0 (0 + batch_size))) =
     (Inr (base_params args3 roster3), 0)"
  unfolding args3_slice by (simp add: add_departure_time_def args3_fields init_state_def)

lemma rows3_loop: "rows_loop roster3 (enumerate 0 rows3) [] = (table3, None)"
  by (simp add: roster3_def rows3_def kim_def lee_def park_def el_ok_def el_not_found_def
      element_row_def table3_def Let_def)

lemma args3_starts: "enumerate 0 (batch_starts 0 (length (students args3))) = [(0, 0)]"
proof -
  have "batch_starts 0 (length roster3) = [0]"
    by (simp add: batch_starts_go batch_starts_stop batch_size_def roster3_def)
  then show ?thesis unfolding args3_fields by simp
qed

lemma args3_total: "(length (students args3) + batch_size - 1) div batch_size = 1"
  unfolding args3_fields by (simp add: roster3_def batch_size_def)

lemma env3_body:
  "batch_body env3 args3 1 0 0 init_state =
     (init_state\<lparr>clock_reads := 0, exchanges := [(base_params args3 roster3, resp3)],
        results := table3, progress_values := [1]\<rparr>, None)"
proof -
  have g: "http_get env3 (length (exchanges init_state)) (base_params args3 roster3) = Inr resp3"
    by (simp add: env3_def)
  have s: "status resp3 = ''OK''" by (simp add: resp3_def)
  have "rows resp3 = rows3" "results init_state = []" by (simp_all add: resp3_def init_state_def)
  then have r: "rows_loop (slice (students args3) 0 (0 + batch_size)) (enumerate 0 (rows resp3))
             (results init_state) = (table3, None)"
    unfolding args3_slice using rows3_loop by simp
  show ?thesis
    unfolding batch_body_ok_done [OF args3_departure g s r]
    by (simp add: report_progress_def args3_fields init_state_def)
qed

lemma env3_run:
  "run_commute_times env3 args3 =
     (init_state\<lparr>clock_reads := 0, exchanges := [(base_params args3 roster3, resp3)],
        results := table3, progress_values := [1]\<rparr>, None)"
  unfolding run_commute_times_def Let_def args3_starts args3_total batch_loop.simps env3_body
  by simp

lemma env_denied_body:
  "batch_body env_denied args3 1 0 0 init_state =
     (init_state\<lparr>clock_reads := 0,
        exchanges := [(base_params args3 roster3, resp_denied)],
        shown_errors := [api_error_text resp_denied]\<rparr>, None)"
proof -
  have g: "http_get env_denied (length (exchanges init_state)) (base_params args3 roster3) =
     Inr resp_denied"
    by (simp add: env_denied_def)
  have s: "status resp_denied \<noteq> ''OK''" by (simp add: resp_denied_def)
  show ?thesis
    unfolding batch_body_not_ok [OF args3_departure g s] by (simp add: init_state_def)
qed

lemma env_denied_run:
  "run_commute_times env_denied args3 =
     (init_state\<lparr>clock_reads := 0,
        exchanges := [(base_params args3 roster3, resp_denied)],
        shown_errors := [api_error_text resp_denied]\<rparr>, None)"
  unfolding run_commute_times_def Let_def args3_starts args3_total batch_loop.simps
    env_denied_body
  by simp

section \<open>The departure time\<close>

lemma add_one_day_total:
  assumes "valid_ymd (year t) (month t) (day t)"
    and "\<not> (year t = 9999 \<and> month t = 12 \<and> day t = 31)"
  shows "\<exists>t'. add_one_day t = Inr t'"
proof (cases "day t < days_in_month (year t) (month t) \<or> month t < 12 \<or> year t < 9999")
  case True
  then show ?thesis by (auto simp: add_one_day_def)
next
  case False
  with assms(1) have "month t = 12" "year t = 9999" "day t = days_in_month (year t) (month t)"
    by (simp_all add: valid_ymd_def)
  then have "day t = 31" by (simp add: days_in_month_def)
  with \<open>month t = 12\<close> \<open>year t = 9999\<close> assms(2) show ?thesis by simp
qed

lemma add_one_day_later:
  assumes "add_one_day t = Inr t'"
    and "year n = year t" "month n = month t" "day n = day t"
  shows "dt_lt n t'"
proof -
  consider (d) "t' = t\<lparr>day := day t + 1\<rparr>"
    | (m) "t' = t\<lparr>month := month t + 1, day := 1\<rparr>"
    | (y) "t' = t\<lparr>year := year t + 1, month := 1, day := 1\<rparr>"
    using assms(1) by (auto simp: add_one_day_def split: if_splits)
  then show ?thesis
    using assms(2-4) by cases (simp_all add: dt_lt_def dt_le_def dt_key_def)
qed

lemma replace_hm_ok:
  assumes "0 \<le> hr" "hr \<le> 23" "0 \<le> mn" "mn \<le> 59"
  shows "replace_hm now hr mn =
           Inr (now\<lparr>hour := nat hr, minute := nat mn, second := 0, microsecond := 0\<rparr>)"
  using assms by (simp add: replace_hm_def)

lemma resolver_no_date_future:
  assumes "replace_hm (clock E k) hr mn = Inr today" and "\<not> dt_le today (clock E k)"
  shows "get_departure_timestamp E k hr mn None = (Inr (timestamp E today), Suc k)"
  using assms by (simp add: get_departure_timestamp_def Let_def)

lemma resolver_no_date_past:
  assumes "replace_hm (clock E k) hr mn = Inr today" and "dt_le today (clock E k)"
    and "add_one_day today = Inr tomorrow"
  shows "get_departure_timestamp E k hr mn None = (Inr (timestamp E tomorrow), Suc k)"
  using assms by (simp add: get_departure_timestamp_def Let_def)

lemma resolver_with_date:
  assumes "0 \<le> hr" "hr \<le> 23" "0 \<le> mn" "mn \<le> 59"
    and "valid_ymd (year d) (month d) (day d)"
  shows "get_departure_timestamp E k hr mn (Some d) =
           (Inr (timestamp E \<lparr>year = year d, month = month d, day = day d,
                   hour = nat hr, minute = nat mn, second = 0, microsecond = 0\<rparr>), k)"
  using assms by (simp add: get_departure_timestamp_def strptime_def)

lemma resolver_no_date:
  assumes hm: "0 \<le> hr" "hr \<le> 23" "0 \<le> mn" "mn \<le> 59"
    and v: "valid_ymd (year (clock E k)) (month (clock E k)) (day (clock E k))"
    and l: "\<not> (year (clock E k) = 9999 \<and> month (clock E k) = 12 \<and> day (clock E k) = 31)"
  shows "\<exists>dt. get_departure_timestamp E k hr mn None = (Inr (timestamp E dt), Suc k) \<and>
           hour dt = nat hr \<and> minute dt = nat mn \<and> second dt = 0 \<and> microsecond dt = 0 \<and>
           dt_lt (clock E k) dt \<and>
           (if dt_lt (clock E k)
                 ((clock E k)\<lparr>hour := nat hr, minute := nat mn, second := 0, microsecond := 0\<rparr>)
            then dt = (clock E k)\<lparr>hour := nat hr, minute := nat mn, second := 0,
                                  microsecond := 0\<rparr>
            else valid_ymd (year dt) (month dt) (day dt) \<and>
                 toordinal (year dt) (month dt) (day dt) =
                   toordinal (year (clock E k)) (month (clock E k)) (day (clock E k)) + 1)"
proof -
  let ?now = "clock E k"
  let ?today = "?now\<lparr>hour := nat hr, minute := nat mn, second := 0, microsecond := 0\<rparr>"
  have r: "replace_hm ?now hr mn = Inr ?today" using hm by (rule replace_hm_ok)
  show ?thesis
  proof (cases "dt_le ?today ?now")
    case False
    then have "dt_lt ?now ?today" by (simp add: dt_lt_def)
    with resolver_no_date_future [OF r False] show ?thesis
      by (intro exI [of _ ?today]) simp
  next
    case True
    from v have v': "valid_ymd (year ?today) (month ?today) (day ?today)" by simp
    from l have l': "\<not> (year ?today = 9999 \<and> month ?today = 12 \<and> day ?today = 31)" by simp
    from add_one_day_total [OF v' l'] obtain t' where a: "add_one_day ?today = Inr t'" by blast
    from add_one_day_ordinal [OF v' a]
    have o: "valid_ymd (year t') (month t') (day t')"
      "toordinal (year t') (month t') (day t') = toordinal (year ?now) (month ?now) (day ?now) + 1"
      "hour t' = nat hr" "minute t' = nat mn" "second t' = 0" "microsecond t' = 0"
      by simp_all
    have later: "dt_lt ?now t'" by (rule add_one_day_later [OF a]) simp_all
    from True have "\<not> dt_lt ?now ?today" by (simp add: dt_lt_def)
    with resolver_no_date_past [OF r True a] o later show ?thesis
      by (intro exI [of _ t']) simp
  qed
qed

section \<open>The outer loop\<close>

lemma batch_loop_invariant:
  assumes "P st"
    and "\<And>idx i s s' r. P s \<Longrightarrow> batch_body E A tb idx i s = (s', r) \<Longrightarrow> P s'"
  shows "P (fst (batch_loop E A tb xs st))"
  using assms(1)
proof (induction xs arbitrary: st)
  case Nil
  then show ?case by simp
next
  case (Cons x xs)
  obtain idx i where x: "x = (idx, i)" by (cases x)
  obtain s' r where b: "batch_body E A tb idx i st = (s', r)"
    by (cases "batch_body E A tb idx i st")
  from assms(2) [OF Cons.prems b] have p: "P s'" .
  show ?case
  proof (cases r)
    case None
    with x b Cons.IH [OF p] show ?thesis by simp
  next
    case (Some e)
    with x b p show ?thesis by simp
  qed
qed

lemma add_departure_time_cases:
  "add_departure_time E A reads p0 = (Inr p, reads') \<Longrightarrow>
     (departure_hour A = None \<and> p = p0 \<and> reads' = reads) \<or>
     (\<exists>h t. departure_hour A = Some h \<and>
        get_departure_timestamp E reads h (departure_minute A) (departure_date A) =
          (Inr t, reads') \<and>
        p = p0\<lparr>departure_time := Some t\<rparr>)"
  by (auto simp: add_departure_time_def split: option.splits prod.splits sum.splits)

lemma batch_body_cases:
  assumes "batch_body E A tb idx i st = (st', r)"
  obtains
    (resolver_error) e reads where
      "add_departure_time E A (clock_reads st)
         (base_params A (slice (students A) i (i + batch_size))) = (Inl e, reads)"
      "st' = st\<lparr>clock_reads := reads\<rparr>" "r = Some e"
  | (http_error) p reads e where
      "add_departure_time E A (clock_reads st)
         (base_params A (slice (students A) i (i + batch_size))) = (Inr p, reads)"
      "http_get E (length (exchanges st)) p = Inl e"
      "st' = st\<lparr>clock_reads := reads\<rparr>" "r = Some e"
  | (answered) p reads data where
      "add_departure_time E A (clock_reads st)
         (base_params A (slice (students A) i (i + batch_size))) = (Inr p, reads)"
      "http_get E (length (exchanges st)) p = Inr data"
      "exchanges st' = exchanges st @ [(p, data)]" "clock_reads st' = reads"
proof -
  let ?p0 = "base_params A (slice (students A) i (i + batch_size))"
  obtain x reads where a: "add_departure_time E A (clock_reads st) ?p0 = (x, reads)"
    by (cases "add_departure_time E A (clock_reads st) ?p0")
  show thesis
  proof (cases x)
    case (Inl e)
    with a assms have "st' = st\<lparr>clock_reads := reads\<rparr>" "r = Some e"
      by (simp_all add: batch_body_def Let_def)
    with a Inl show thesis by (intro resolver_error) simp_all
  next
    case (Inr p)
    note p = this
    show thesis
    proof (cases "http_get E (length (exchanges st)) p")
      case (Inl e)
      with a p assms have "st' = st\<lparr>clock_reads := reads\<rparr>" "r = Some e"
        by (simp_all add: batch_body_def Let_def)
      with a p Inl show thesis by (intro http_error) simp_all
    next
      case (Inr data)
      from a p have a': "add_departure_time E A (clock_reads st) ?p0 = (Inr p, reads)" by simp
      show thesis
      proof (cases "status data = ''OK''")
        case True
        from batch_body_ok_fields(2,3) [OF a' Inr True, of tb idx] assms
        have "exchanges st' = exchanges st @ [(p, data)]" "clock_reads st' = reads" by simp_all
        with a' Inr show thesis by (intro answered)
      next
        case False
        from batch_body_not_ok [OF a' Inr False, of tb idx] assms
        have "exchanges st' = exchanges st @ [(p, data)]" "clock_reads st' = reads" by auto
        with a' Inr show thesis by (intro answered)
      qed
    qed
  qed
qed

lemma report_progress_done:
  assumes "tb \<noteq> 0"
  shows "\<exists>s'. report_progress A tb idx s = (s', None) \<and> results s' = results s \<and>
           exchanges s' = exchanges s"
  using assms by (simp add: report_progress_def)

lemma resolves_departure:
  assumes "resolves E A"
  shows "\<exists>p reads. add_departure_time E A k p0 = (Inr p, reads)"
proof (cases "departure_hour A")
  case None
  then show ?thesis by (simp add: add_departure_time_def)
next
  case (Some h)
  with assms obtain t where
    "fst (get_departure_timestamp E k h (departure_minute A) (departure_date A)) = Inr t"
    unfolding resolves_def by blast
  with Some show ?thesis
    by (cases "get_departure_timestamp E k h (departure_minute A) (departure_date A)")
      (simp add: add_departure_time_def)
qed

lemma nth_batches_slice:
  assumes "idx * batch_size < length ss"
  shows "idx < length (batches ss)"
    and "batches ss ! idx = slice ss (idx * batch_size) (idx * batch_size + batch_size)"
proof -
  from assms show l: "idx < length (batches ss)"
    by (simp only: length_batches batch_index_less)
  from nth_batches [OF l]
  show "batches ss ! idx = slice ss (idx * batch_size) (idx * batch_size + batch_size)"
    by (simp add: slice_def)
qed

lemma slice_length:
  "i < length ss \<Longrightarrow>
   length (slice ss i (i + batch_size)) + (length ss - (i + batch_size)) = length ss - i"
  by (simp add: slice_def)

lemma slice_nonempty: "i < length ss \<Longrightarrow> 0 < length (slice ss i (i + batch_size))"
  by (simp add: slice_def batch_size_def)

lemma batch_loop_conforming:
  assumes conf: "conforming E (students A)" and res: "resolves E A" and tb: "tb \<noteq> 0"
  shows "n = length (students A) \<Longrightarrow> i = idx * batch_size \<Longrightarrow> length (exchanges st) = idx \<Longrightarrow>
     \<exists>st' new. batch_loop E A tb (enumerate idx (batch_starts i n)) st = (st', None) \<and>
        exchanges st' = exchanges st @ new \<and> length new = length (batch_starts i n) \<and>
        length (results st') \<le> length (results st) + (n - i) \<and>
        (length (results st') = length (results st) + (n - i) \<longleftrightarrow>
           (\<forall>x\<in>set new. status (snd x) = ''OK''))"
proof (induction i n arbitrary: idx st rule: batch_starts.induct)
  case (1 i n)
  note n = "1.prems"(1) and i = "1.prems"(2) and ex = "1.prems"(3)
  show ?case
  proof (cases "i < n")
    case False
    have "batch_loop E A tb (enumerate idx (batch_starts i n)) st = (st, None)"
      by (simp add: batch_starts_stop [OF False])
    moreover from False have "n - i = 0" by simp
    ultimately show ?thesis
      by (intro exI [of _ st] exI [of _ "[]"]) (simp add: batch_starts_stop [OF False])
  next
    case less: True
    let ?ss = "students A"
    let ?b = "slice ?ss i (i + batch_size)"
    let ?rest = "enumerate (Suc idx) (batch_starts (i + batch_size) n)"
    from less n i have lt: "idx * batch_size < length ?ss" by simp
    note nb = nth_batches_slice [OF lt]
    from resolves_departure [OF res] obtain p reads where
      a: "add_departure_time E A (clock_reads st) (base_params A ?b) = (Inr p, reads)"
      by blast
    from conf nb(1) obtain data where g0: "http_get E idx p = Inr data"
      and c0: "conforms (batches ?ss ! idx) data"
      unfolding conforming_def by blast
    from g0 ex have g: "http_get E (length (exchanges st)) p = Inr data" by simp
    from c0 nb(2) i have c: "conforms ?b data" by simp
    have starts: "enumerate idx (batch_starts i n) = (idx, i) # ?rest"
      by (simp add: batch_starts_go [OF less])
    have next_i: "i + batch_size = Suc idx * batch_size" using i by simp
    have IH: "\<exists>st' new. batch_loop E A tb ?rest st1 = (st', None) \<and>
        exchanges st' = exchanges st1 @ new \<and>
        length new = length (batch_starts (i + batch_size) n) \<and>
        length (results st') \<le> length (results st1) + (n - (i + batch_size)) \<and>
        (length (results st') = length (results st1) + (n - (i + batch_size)) \<longleftrightarrow>
           (\<forall>x\<in>set new. status (snd x) = ''OK''))"
      if "length (exchanges st1) = Suc idx" for st1
      by (rule "1.IH" [OF less n next_i that])
    show ?thesis
    proof (cases "status data = ''OK''")
      case False
      let ?st1 = "st\<lparr>clock_reads := reads, exchanges := exchanges st @ [(p, data)],
                      shown_errors := shown_errors st @ [api_error_text data]\<rparr>"
      have b: "batch_body E A tb idx i st = (?st1, None)"
        by (rule batch_body_not_ok [OF a g False])
      have "length (exchanges ?st1) = Suc idx" using ex by simp
      from IH [OF this] obtain st' new where
        L: "batch_loop E A tb ?rest ?st1 = (st', None)"
        and e: "exchanges st' = exchanges ?st1 @ new"
        and ln: "length new = length (batch_starts (i + batch_size) n)"
        and le: "length (results st') \<le> length (results ?st1) + (n - (i + batch_size))"
        by blast
      have loop: "batch_loop E A tb (enumerate idx (batch_starts i n)) st = (st', None)"
        using starts b L by simp
      have e': "exchanges st' = exchanges st @ ((p, data) # new)" using e by simp
      have ln': "length ((p, data) # new) = length (batch_starts i n)"
        using ln by (simp add: batch_starts_go [OF less])
      have "n - (i + batch_size) < n - i" using less by (simp add: batch_size_def)
      with le have lt': "length (results st') < length (results st) + (n - i)" by simp
      from loop e' ln' lt' False show ?thesis
        by (intro exI [of _ st'] exI [of _ "(p, data) # new"]) simp
    next
      case True
      from c True have lr: "length (rows data) = length ?b"
        and ok: "\<forall>w\<in>set (rows data). row_ok w"
        by (simp_all add: conforms_def)
      from lr have "0 + length (rows data) \<le> length ?b" by simp
      from rows_loop_conforming [OF this ok, of "results st"] obtain newr where
        rl: "rows_loop ?b (enumerate 0 (rows data)) (results st) = (results st @ newr, None)"
        and lnr: "length newr = length (rows data)"
        by blast
      let ?st0 = "st\<lparr>clock_reads := reads, exchanges := exchanges st @ [(p, data)],
                      results := results st @ newr\<rparr>"
      have b0: "batch_body E A tb idx i st = report_progress A tb idx ?st0"
        by (rule batch_body_ok_done [OF a g True rl])
      from report_progress_done [OF tb, of A idx ?st0] obtain st1 where
        rp: "report_progress A tb idx ?st0 = (st1, None)"
        and r1: "results st1 = results ?st0" and e1: "exchanges st1 = exchanges ?st0"
        by blast
      from b0 rp have b: "batch_body E A tb idx i st = (st1, None)" by simp
      have "length (exchanges st1) = Suc idx" using e1 ex by simp
      from IH [OF this] obtain st' new where
        L: "batch_loop E A tb ?rest st1 = (st', None)"
        and e: "exchanges st' = exchanges st1 @ new"
        and ln: "length new = length (batch_starts (i + batch_size) n)"
        and le: "length (results st') \<le> length (results st1) + (n - (i + batch_size))"
        and eq: "length (results st') = length (results st1) + (n - (i + batch_size)) \<longleftrightarrow>
                   (\<forall>x\<in>set new. status (snd x) = ''OK'')"
        by blast
      have loop: "batch_loop E A tb (enumerate idx (batch_starts i n)) st = (st', None)"
        using starts b L by simp
      have e': "exchanges st' = exchanges st @ ((p, data) # new)" using e e1 by simp
      have ln': "length ((p, data) # new) = length (batch_starts i n)"
        using ln by (simp add: batch_starts_go [OF less])
      from less n have "length ?b + (n - (i + batch_size)) = n - i"
        using slice_length [of i ?ss] by simp
      with r1 lnr lr
      have sum: "length (results st1) + (n - (i + batch_size)) = length (results st) + (n - i)"
        by simp
      from le sum have le': "length (results st') \<le> length (results st) + (n - i)" by simp
      from eq sum True
      have eq': "length (results st') = length (results st) + (n - i) \<longleftrightarrow>
                   (\<forall>x\<in>set ((p, data) # new). status (snd x) = ''OK'')"
        by simp
      from loop e' ln' le' eq' show ?thesis
        by (intro exI [of _ st'] exI [of _ "(p, data) # new"]) blast
    qed
  qed
qed

lemma total_batches_pos:
  "0 < n \<Longrightarrow> (n + batch_size - 1) div batch_size \<noteq> 0"
  using batch_index_less [of 0 n] by simp

lemma run_conforming:
  assumes "conforming E (students A)" and "resolves E A"
  shows "\<exists>st. run_commute_times E A = (st, None) \<and>
           length (exchanges st) = length (batches (students A)) \<and>
           length (results st) \<le> length (students A) \<and>
           (length (results st) = length (students A) \<longleftrightarrow>
              (\<forall>x\<in>set (exchanges st). status (snd x) = ''OK''))"
proof (cases "students A = []")
  case True
  then have "run_commute_times E A = (init_state, None)"
    by (simp add: run_commute_times_def batch_starts_stop)
  with True show ?thesis
    by (simp add: init_state_def batches_def batch_starts_stop)
next
  case False
  let ?n = "length (students A)"
  let ?tb = "(?n + batch_size - 1) div batch_size"
  from False have tb: "?tb \<noteq> 0" by (intro total_batches_pos) simp
  have "length (exchanges init_state) = 0" by (simp add: init_state_def)
  from batch_loop_conforming [OF assms tb refl _ this, of 0] obtain st' new where
    L: "batch_loop E A ?tb (enumerate 0 (batch_starts 0 ?n)) init_state = (st', None)"
    and e: "exchanges st' = exchanges init_state @ new"
    and ln: "length new = length (batch_starts 0 ?n)"
    and le: "length (results st') \<le> length (results init_state) + (?n - 0)"
    and eq: "length (results st') = length (results init_state) + (?n - 0) \<longleftrightarrow>
               (\<forall>x\<in>set new. status (snd x) = ''OK'')"
    by auto
  from L have r: "run_commute_times E A = (st', None)"
    by (simp add: run_commute_times_def Let_def)
  from e have e': "exchanges st' = new" by (simp add: init_state_def)
  from ln e' have "length (exchanges st') = length (batches (students A))"
    by (simp add: batches_def)
  moreover from le have "length (results st') \<le> ?n" by (simp add: init_state_def)
  moreover from eq e' have "length (results st') = ?n \<longleftrightarrow>
      (\<forall>x\<in>set (exchanges st'). status (snd x) = ''OK'')"
    by (simp add: init_state_def)
  ultimately show ?thesis using r by blast
qed

lemma resolves_no_hour: "departure_hour A = None \<Longrightarrow> resolves E A"
  by (simp add: resolves_def)

lemma resolves_with_date:
  assumes "departure_hour A = Some h" "0 \<le> h" "h \<le> 23"
    and "0 \<le> departure_minute A" "departure_minute A \<le> 59"
    and "departure_date A = Some d" "valid_ymd (year d) (month d) (day d)"
  shows "resolves E A"
  unfolding resolves_def
  using assms resolver_with_date [OF assms(2-5) assms(7), of E] by simp

lemma resolves_by_clock:
  assumes "departure_hour A = Some h" "0 \<le> h" "h \<le> 23"
    and "0 \<le> departure_minute A" "departure_minute A \<le> 59"
    and "departure_date A = None"
    and "\<And>k. valid_ymd (year (clock E k)) (month (clock E k)) (day (clock E k))"
    and "\<And>k. \<not> (year (clock E k) = 9999 \<and> month (clock E k) = 12 \<and> day (clock E k) = 31)"
  shows "resolves E A"
proof -
  have "\<exists>t. fst (get_departure_timestamp E k h (departure_minute A) None) = Inr t" for k
    using resolver_no_date [OF assms(2-5) assms(7) assms(8), of k] by auto
  with assms(1,6) show ?thesis by (simp add: resolves_def)
qed

lemma args3_batches: "batches (students args3) = [roster3]"
proof -
  have l: "length (batches (students args3)) = 1"
    by (simp only: length_batches args3_total)
  then have "0 < length (batches (students args3))" by simp
  from nth_batches [OF this] have "batches (students args3) ! 0 = roster3"
    by (simp add: args3_fields roster3_def batch_size_def)
  with l show ?thesis by (cases "batches (students args3)") simp_all
qed

lemma env3_conforming: "conforming env3 (students args3)"
  unfolding conforming_def args3_batches
  by (simp add: env3_def conforms_def resp3_def rows3_def roster3_def row_ok_def el_ok_def
      el_not_found_def)

lemma env_denied_conforming: "conforming env_denied (students args3)"
  unfolding conforming_def args3_batches
  by (simp add: env_denied_def conforms_def resp_denied_def)

section \<open>What a run reads from its environment\<close>

lemma get_departure_timestamp_env:
  assumes "timestamp E1 = timestamp E2"
    and "d \<noteq> None \<or> (\<forall>k. clock E1 k = clock E2 k)"
  shows "get_departure_timestamp E1 k h m d = get_departure_timestamp E2 k h m d"
proof (cases d)
  case None
  with assms(2) have c: "clock E1 = clock E2" by auto
  show ?thesis
    unfolding None get_departure_timestamp_def assms(1) c by (rule refl)
next
  case (Some a)
  show ?thesis
    unfolding Some get_departure_timestamp_def assms(1) by simp
qed

lemma add_departure_time_env:
  assumes "timestamp E1 = timestamp E2"
    and "departure_hour A = None \<or> departure_date A \<noteq> None \<or> (\<forall>k. clock E1 k = clock E2 k)"
  shows "add_departure_time E1 A k p = add_departure_time E2 A k p"
proof (cases "departure_hour A")
  case None
  then show ?thesis by (simp add: add_departure_time_def)
next
  case (Some h)
  with assms(2) have "departure_date A \<noteq> None \<or> (\<forall>k. clock E1 k = clock E2 k)" by simp
  from get_departure_timestamp_env [OF assms(1) this] Some show ?thesis
    by (simp add: add_departure_time_def)
qed

lemma batch_body_env:
  assumes "timestamp E1 = timestamp E2" and "http_get E1 = http_get E2"
    and "departure_hour A = None \<or> departure_date A \<noteq> None \<or> (\<forall>k. clock E1 k = clock E2 k)"
  shows "batch_body E1 A tb idx i st = batch_body E2 A tb idx i st"
  unfolding batch_body_def add_departure_time_env [OF assms(1,3)] assms(2) by (rule refl)

lemma batch_loop_env:
  assumes "timestamp E1 = timestamp E2" and "http_get E1 = http_get E2"
    and "departure_hour A = None \<or> departure_date A \<noteq> None \<or> (\<forall>k. clock E1 k = clock E2 k)"
  shows "batch_loop E1 A tb xs st = batch_loop E2 A tb xs st"
proof (induction xs arbitrary: st)
  case Nil
  show ?case by simp
next
  case (Cons x xs)
  obtain idx i where x: "x = (idx, i)" by (cases x)
  show ?case
    unfolding x batch_loop.simps batch_body_env [OF assms] Cons.IH ..
qed

lemma roster3_single_batch:
  assumes "students A = roster3" and "batch_body E A 1 0 0 init_state = (st, r)"
  shows "run_commute_times E A = (st, r)"
proof -
  have "batch_starts 0 (length roster3) = [0]"
    by (simp add: batch_starts_go batch_starts_stop batch_size_def roster3_def)
  then have s: "enumerate 0 (batch_starts 0 (length (students A))) = [(0, 0)]"
    unfolding assms(1) by simp
  have t: "(length (students A) + batch_size - 1) div batch_size = 1"
    unfolding assms(1) by (simp add: roster3_def batch_size_def)
  show ?thesis
    unfolding run_commute_times_def Let_def s t batch_loop.simps assms(2)
    by (cases r) simp_all
qed

lemma roster3_slice:
  "students A = roster3 \<Longrightarrow> slice (students A) 0 (0 + batch_size) = roster3"
  by (simp add: slice_def batch_size_def roster3_def)

lemma resolve_early:
  "clock E k = seven_am \<Longrightarrow> timestamp E = kst \<Longrightarrow>
   get_departure_timestamp E k 8 0 None = (Inr 1704063600, Suc k)"
  by (simp add: get_departure_timestamp_def replace_hm_def dt_le_def dt_key_def
      seven_am_def kst_def fixed_zone_timestamp_def toordinal_def
      days_before_year_def days_before_month_def is_leap_def)

lemma resolve_late:
  "clock E k = nine_am \<Longrightarrow> timestamp E = kst \<Longrightarrow>
   get_departure_timestamp E k 8 0 None = (Inr 1704150000, Suc k)"
  by (simp add: get_departure_timestamp_def replace_hm_def dt_le_def dt_key_def
      nine_am_def add_one_day_def days_in_month_def numeral_2_eq_2 [symmetric] kst_def fixed_zone_timestamp_def toordinal_def
      days_before_year_def days_before_month_def is_leap_def)

lemma resolve_just_before:
  "clock E k = just_before \<Longrightarrow> timestamp E = kst \<Longrightarrow>
   get_departure_timestamp E k 8 0 None = (Inr 1704063600, Suc k)"
  by (simp add: get_departure_timestamp_def replace_hm_def dt_le_def dt_key_def
      just_before_def kst_def fixed_zone_timestamp_def toordinal_def
      days_before_year_def days_before_month_def is_leap_def)

lemma resolve_just_after:
  "clock E k = just_after \<Longrightarrow> timestamp E = kst \<Longrightarrow>
   get_departure_timestamp E k 8 0 None = (Inr 1704150000, Suc k)"
  by (simp add: get_departure_timestamp_def replace_hm_def dt_le_def dt_key_def
      just_after_def add_one_day_def days_in_month_def numeral_2_eq_2 [symmetric] kst_def fixed_zone_timestamp_def toordinal_def
      days_before_year_def days_before_month_def is_leap_def)

lemma args8_fields:
  "students args8 = roster3" "departure_hour args8 = Some 8" "departure_minute args8 = 0"
  "departure_date args8 = None" "progress_bar args8"
  by (simp_all add: args8_def)

lemma args8_departure_early:
  "add_departure_time env_early args8 (clock_reads init_state)
     (base_params args8 (slice (students args8) 0 (0 + batch_size))) =
     (Inr ((base_params args8 roster3)\<lparr>departure_time := Some 1704063600\<rparr>), 1)"
proof -
  have "get_departure_timestamp env_early 0 8 0 None = (Inr 1704063600, Suc 0)"
    by (rule resolve_early) (simp_all add: env_early_def)
  then show ?thesis
    unfolding roster3_slice [OF args8_fields(1)]
    by (simp add: add_departure_time_def args8_fields init_state_def)
qed

lemma args8_departure_late:
  "add_departure_time env_late args8 (clock_reads init_state)
     (base_params args8 (slice (students args8) 0 (0 + batch_size))) =
     (Inr ((base_params args8 roster3)\<lparr>departure_time := Some 1704150000\<rparr>), 1)"
proof -
  have "get_departure_timestamp env_late 0 8 0 None = (Inr 1704150000, Suc 0)"
    by (rule resolve_late) (simp_all add: env_late_def)
  then show ?thesis
    unfolding roster3_slice [OF args8_fields(1)]
    by (simp add: add_departure_time_def args8_fields init_state_def)
qed

lemma env_early_run: "calculate_commute_times env_early args8 = Inr table3"
proof -
  let ?p = "(base_params args8 roster3)\<lparr>departure_time := Some 1704063600\<rparr>"
  have g: "http_get env_early (length (exchanges init_state)) ?p = Inr resp3"
    by (simp add: env_early_def api_timed_def)
  have s: "status resp3 = ''OK''" by (simp add: resp3_def)
  have "rows resp3 = rows3" "results init_state = []" by (simp_all add: resp3_def init_state_def)
  then have r: "rows_loop (slice (students args8) 0 (0 + batch_size)) (enumerate 0 (rows resp3))
             (results init_state) = (table3, None)"
    unfolding roster3_slice [OF args8_fields(1)] using rows3_loop by simp
  obtain st where b: "batch_body env_early args8 1 0 0 init_state = (st, None)"
    and t: "results st = table3"
    unfolding batch_body_ok_done [OF args8_departure_early g s r]
    by (simp add: report_progress_def args8_fields)
  from roster3_single_batch [OF args8_fields(1) b] t show ?thesis
    by (simp add: calculate_commute_times_def)
qed

lemma env_late_run: "calculate_commute_times env_late args8 = Inr []"
proof -
  let ?p = "(base_params args8 roster3)\<lparr>departure_time := Some 1704150000\<rparr>"
  have g: "http_get env_late (length (exchanges init_state)) ?p = Inr resp_denied"
    by (simp add: env_late_def api_timed_def)
  have s: "status resp_denied \<noteq> ''OK''" by (simp add: resp_denied_def)
  note b = batch_body_not_ok [OF args8_departure_late g s, of 1 0]
  from roster3_single_batch [OF args8_fields(1) b] show ?thesis
    by (simp add: calculate_commute_times_def init_state_def)
qed

section \<open>The departure time in the requests of a run\<close>

lemma batch_loop_invariant_ok:
  assumes "P st"
    and "\<And>idx i s s'. P s \<Longrightarrow> batch_body E A tb idx i s = (s', None) \<Longrightarrow> P s'"
    and "\<And>idx i s s' e. P s \<Longrightarrow> batch_body E A tb idx i s = (s', Some e) \<Longrightarrow> Q s'"
    and "\<And>s. P s \<Longrightarrow> Q s"
  shows "Q (fst (batch_loop E A tb xs st)) \<and>
         (snd (batch_loop E A tb xs st) = None \<longrightarrow> P (fst (batch_loop E A tb xs st)))"
  using assms(1)
proof (induction xs arbitrary: st)
  case Nil
  with assms(4) show ?case by simp
next
  case (Cons x xs)
  obtain idx i where x: "x = (idx, i)" by (cases x)
  obtain s' r where b: "batch_body E A tb idx i st = (s', r)"
    by (cases "batch_body E A tb idx i st")
  show ?case
  proof (cases r)
    case None
    with b assms(2) [OF Cons.prems] have "P s'" by simp
    from Cons.IH [OF this] x b None show ?thesis by simp
  next
    case (Some e)
    with b assms(3) [OF Cons.prems] have "Q s'" by simp
    with x b Some show ?thesis by simp
  qed
qed

lemma batch_loop_exchanges_count:
  "batch_loop E A tb xs st = (st', None) \<Longrightarrow>
   length (exchanges st') = length (exchanges st) + length xs"
proof (induction xs arbitrary: st)
  case Nil
  then show ?case by simp
next
  case (Cons x xs)
  obtain idx i where x: "x = (idx, i)" by (cases x)
  obtain s' r where b: "batch_body E A tb idx i st = (s', r)"
    by (cases "batch_body E A tb idx i st")
  from Cons.prems x b have r: "r = None" and l: "batch_loop E A tb xs s' = (st', None)"
    by (cases r; simp)+
  from b r have "length (exchanges s') = Suc (length (exchanges st))"
    by (cases rule: batch_body_cases) simp_all
  with Cons.IH [OF l] show ?case by simp
qed

lemma add_departure_time_dated:
  assumes "departure_hour A = Some h" and "departure_date A = Some d"
    and "add_departure_time E A k p0 = (x, reads)"
  shows "reads = k"
    and "x = Inr p \<Longrightarrow>
         departure_time p =
           Some (timestamp E \<lparr>year = year d, month = month d, day = day d, hour = nat h,
                   minute = nat (departure_minute A), second = 0, microsecond = 0\<rparr>)"
  using assms
  by (auto simp: add_departure_time_def get_departure_timestamp_def strptime_def
      split: if_splits)

lemma get_departure_timestamp_reads:
  "snd (get_departure_timestamp E k h m None) = Suc k"
  by (simp add: get_departure_timestamp_def Let_def split: sum.splits)

lemma add_departure_time_undated:
  assumes "departure_hour A = Some h" and "departure_date A = None"
    and "add_departure_time E A k p0 = (x, reads)"
  shows "reads = Suc k"
    and "x = Inr p \<Longrightarrow>
         \<exists>t. fst (get_departure_timestamp E k h (departure_minute A) None) = Inr t \<and>
              departure_time p = Some t"
proof -
  obtain y r where g: "get_departure_timestamp E k h (departure_minute A) None = (y, r)"
    by (cases "get_departure_timestamp E k h (departure_minute A) None")
  with get_departure_timestamp_reads [of E k h "departure_minute A"] have r: "r = Suc k"
    by simp
  from assms g r show "reads = Suc k"
    by (cases y) (simp_all add: add_departure_time_def)
  assume "x = Inr p"
  with assms g show "\<exists>t. fst (get_departure_timestamp E k h (departure_minute A) None) = Inr t \<and>
              departure_time p = Some t"
    by (cases y) (auto simp: add_departure_time_def)
qed

lemma dated_requests:
  assumes "departure_hour A = Some h" and "departure_date A = Some d"
  shows "clock_reads (fst (batch_loop E A tb xs init_state)) = 0 \<and>
         (\<forall>x\<in>set (exchanges (fst (batch_loop E A tb xs init_state))).
            departure_time (fst x) =
              Some (timestamp E \<lparr>year = year d, month = month d, day = day d, hour = nat h,
                      minute = nat (departure_minute A), second = 0, microsecond = 0\<rparr>))"
    (is "?P (fst (batch_loop E A tb xs init_state))")
proof (rule batch_loop_invariant)
  show "?P init_state" by (simp add: init_state_def)
next
  fix idx i s s' r
  assume p: "?P s" and b: "batch_body E A tb idx i s = (s', r)"
  from b show "?P s'"
  proof (cases rule: batch_body_cases)
    case (resolver_error e reads)
    from add_departure_time_dated(1) [OF assms resolver_error(1)] p resolver_error(2)
    show ?thesis by simp
  next
    case (http_error q reads e)
    from add_departure_time_dated(1) [OF assms http_error(1)] p http_error(3)
    show ?thesis by simp
  next
    case (answered q reads data)
    from add_departure_time_dated(1) [OF assms answered(1)]
      add_departure_time_dated(2) [OF assms answered(1) refl] p answered(3,4)
    show ?thesis by simp
  qed
qed

lemma undated_requests:
  assumes "departure_hour A = Some h" and "departure_date A = None"
  shows "(\<forall>k<length (exchanges (fst (batch_loop E A tb xs init_state))).
            \<exists>t. fst (get_departure_timestamp E k h (departure_minute A) None) = Inr t \<and>
                departure_time (fst (exchanges (fst (batch_loop E A tb xs init_state)) ! k)) =
                  Some t) \<and>
         (snd (batch_loop E A tb xs init_state) = None \<longrightarrow>
            (\<forall>k<length (exchanges (fst (batch_loop E A tb xs init_state))).
               \<exists>t. fst (get_departure_timestamp E k h (departure_minute A) None) = Inr t \<and>
                   departure_time (fst (exchanges (fst (batch_loop E A tb xs init_state)) ! k)) =
                     Some t) \<and>
            clock_reads (fst (batch_loop E A tb xs init_state)) =
              length (exchanges (fst (batch_loop E A tb xs init_state))))"
    (is "?Q (fst (batch_loop E A tb xs init_state)) \<and>
         (_ \<longrightarrow> ?Q (fst (batch_loop E A tb xs init_state)) \<and> ?C (fst (batch_loop E A tb xs init_state)))")
proof (rule batch_loop_invariant_ok [where P = "\<lambda>s. ?Q s \<and> ?C s" and Q = ?Q])
  show "?Q init_state \<and> ?C init_state" by (simp add: init_state_def)
next
  fix s assume "?Q s \<and> ?C s" then show "?Q s" by simp
next
  fix idx i s s' assume p: "?Q s \<and> ?C s" and b: "batch_body E A tb idx i s = (s', None)"
  from b show "?Q s' \<and> ?C s'"
  proof (cases rule: batch_body_cases)
    case (answered q reads data)
    from add_departure_time_undated(1) [OF assms answered(1)]
      add_departure_time_undated(2) [OF assms answered(1) refl] p
    obtain t where r: "reads = Suc (length (exchanges s))"
      and t: "fst (get_departure_timestamp E (length (exchanges s)) h (departure_minute A) None) = Inr t"
        "departure_time q = Some t" by auto
    from p t answered(3) have "?Q s'" by (auto simp: nth_append less_Suc_eq)
    moreover from r answered(3,4) have "?C s'" by simp
    ultimately show ?thesis ..
  qed simp_all
next
  fix idx i s s' e assume p: "?Q s \<and> ?C s" and b: "batch_body E A tb idx i s = (s', Some e)"
  from b show "?Q s'"
  proof (cases rule: batch_body_cases)
    case (resolver_error e' reads)
    with p show ?thesis by simp
  next
    case (http_error q reads e')
    with p show ?thesis by simp
  next
    case (answered q reads data)
    from add_departure_time_undated(2) [OF assms answered(1) refl] p
    obtain t where
      t: "fst (get_departure_timestamp E (length (exchanges s)) h (departure_minute A) None) = Inr t"
        "departure_time q = Some t" by auto
    from p t answered(3) show ?thesis by (auto simp: nth_append less_Suc_eq)
  qed
qed

lemma args26_fields:
  "students args26 = roster26" "departure_hour args26 = Some 8"
  "departure_minute args26 = 0" "departure_date args26 = None"
  by (simp_all add: args26_def)

lemma args26_loop:
  "enumerate 0 (batch_starts 0 (length (students args26))) = [(0, 0), (Suc 0, 25)]"
  "(length (students args26) + batch_size - 1) div batch_size = 2"
proof -
  have l: "length (students args26) = 26" by (simp add: args26_fields roster26_def)
  have "batch_starts 0 26 = [0, 25]"
    by (simp add: batch_starts_go batch_starts_stop batch_size_def)
  then show "enumerate 0 (batch_starts 0 (length (students args26))) = [(0, 0), (Suc 0, 25)]"
    unfolding l by simp
  show "(length (students args26) + batch_size - 1) div batch_size = 2"
    unfolding l by (simp add: batch_size_def)
qed

lemma tick_run:
  "\<exists>p0 p1 st. run_commute_times env_tick args26 = (st, None) \<and> clock_reads st = 2 \<and>
     exchanges st = [(p0, resp_denied), (p1, resp_denied)] \<and>
     departure_time p0 = Some 1704063600 \<and> departure_time p1 = Some 1704150000"
proof -
  let ?P0 = "base_params args26 (slice (students args26) 0 (0 + batch_size))"
  let ?P1 = "base_params args26 (slice (students args26) 25 (25 + batch_size))"
  let ?p0 = "?P0\<lparr>departure_time := Some 1704063600\<rparr>"
  let ?p1 = "?P1\<lparr>departure_time := Some 1704150000\<rparr>"
  let ?st1 = "init_state\<lparr>clock_reads := 1, exchanges := exchanges init_state @ [(?p0, resp_denied)],
                shown_errors := shown_errors init_state @ [api_error_text resp_denied]\<rparr>"
  let ?st2 = "?st1\<lparr>clock_reads := 2, exchanges := exchanges ?st1 @ [(?p1, resp_denied)],
                shown_errors := shown_errors ?st1 @ [api_error_text resp_denied]\<rparr>"
  have s: "status resp_denied \<noteq> ''OK''" by (simp add: resp_denied_def)
  have t0: "get_departure_timestamp env_tick 0 8 0 None = (Inr 1704063600, Suc 0)"
    by (rule resolve_just_before) (simp_all add: env_tick_def)
  have t1: "get_departure_timestamp env_tick (Suc 0) 8 0 None = (Inr 1704150000, Suc (Suc 0))"
    by (rule resolve_just_after) (simp_all add: env_tick_def)
  have a0: "add_departure_time env_tick args26 (clock_reads init_state) ?P0 = (Inr ?p0, 1)"
    using t0 by (simp add: add_departure_time_def args26_fields init_state_def)
  have g0: "http_get env_tick (length (exchanges init_state)) ?p0 = Inr resp_denied"
    by (simp add: env_tick_def)
  have b0: "batch_body env_tick args26 2 0 0 init_state = (?st1, None)"
    by (rule batch_body_not_ok [OF a0 g0 s])
  have a1: "add_departure_time env_tick args26 (clock_reads ?st1) ?P1 = (Inr ?p1, 2)"
    using t1 by (simp add: add_departure_time_def args26_fields)
  have g1: "http_get env_tick (length (exchanges ?st1)) ?p1 = Inr resp_denied"
    by (simp add: env_tick_def)
  have b1: "batch_body env_tick args26 2 (Suc 0) 25 ?st1 = (?st2, None)"
    by (rule batch_body_not_ok [OF a1 g1 s])
  have r1: "batch_loop env_tick args26 2 [(Suc 0, 25)] ?st1 = (?st2, None)"
    unfolding batch_loop.simps b1 by simp
  have r0: "batch_loop env_tick args26 2 [(0, 0), (Suc 0, 25)] init_state = (?st2, None)"
    unfolding batch_loop.simps(2) [of _ _ _ 0 0] b0 using r1 by simp
  have run: "run_commute_times env_tick args26 = (?st2, None)"
    unfolding run_commute_times_def Let_def args26_loop r0 by (rule refl)
  show ?thesis
    unfolding run
    by (intro exI [of _ ?p0] exI [of _ ?p1] exI [of _ ?st2]) (simp add: init_state_def)
qed

section \<open>The iterations of a run, by batch index\<close>

lemma enumerate_map_upt:
  "enumerate a (map g [a..<b]) = map (\<lambda>k. (k, g k)) [a..<b]"
  by (rule nth_equalityI) (simp_all add: nth_enumerate_eq)

lemma loop_list:
  "enumerate 0 (batch_starts 0 (length ss)) =
     map (\<lambda>k. (k, k * batch_size)) [0..<length (batches ss)]"
proof -
  have "batch_starts 0 (length ss) = map (\<lambda>k. k * batch_size) [0..<length (batches ss)]"
    using batch_starts_map [of 0 "length ss"] by (simp add: length_batches)
  then show ?thesis by (simp only: enumerate_map_upt)
qed

lemma run_indexed:
  "run_commute_times E A =
     batch_loop E A ((length (students A) + batch_size - 1) div batch_size)
       (map (\<lambda>k. (k, k * batch_size)) [0..<length (batches (students A))]) init_state"
  by (simp only: run_commute_times_def Let_def loop_list)

lemma batch_loop_indexed:
  assumes step: "\<And>k s s'. k < b \<Longrightarrow> P k s \<Longrightarrow>
                   batch_body E A tb k (k * batch_size) s = (s', None) \<Longrightarrow> P (Suc k) s'"
    and err: "\<And>k s s' e. k < b \<Longrightarrow> P k s \<Longrightarrow>
                   batch_body E A tb k (k * batch_size) s = (s', Some e) \<Longrightarrow> Q s'"
    and weak: "\<And>k s. k \<le> b \<Longrightarrow> P k s \<Longrightarrow> Q s"
  shows "a \<le> b \<Longrightarrow> P a st \<Longrightarrow>
         Q (fst (batch_loop E A tb (map (\<lambda>k. (k, k * batch_size)) [a..<b]) st)) \<and>
         (snd (batch_loop E A tb (map (\<lambda>k. (k, k * batch_size)) [a..<b]) st) = None \<longrightarrow>
            P b (fst (batch_loop E A tb (map (\<lambda>k. (k, k * batch_size)) [a..<b]) st)))"
proof (induction "b - a" arbitrary: a st)
  case 0
  then have "a = b" by simp
  with 0 weak [of a st] show ?case by simp
next
  case (Suc n)
  from Suc.hyps(2) have ab: "a < b" by simp
  then have l: "[a..<b] = a # [Suc a..<b]" by (rule upt_conv_Cons)
  obtain s' r where bb: "batch_body E A tb a (a * batch_size) st = (s', r)"
    by (cases "batch_body E A tb a (a * batch_size) st")
  show ?case
  proof (cases r)
    case None
    with bb step [OF ab Suc.prems(2)] have p: "P (Suc a) s'" by simp
    from Suc.hyps(2) have n: "n = b - Suc a" by simp
    from ab have le: "Suc a \<le> b" by simp
    from Suc.hyps(1) [OF n le p] bb None show ?thesis
      unfolding l by simp
  next
    case (Some e)
    with bb err [OF ab Suc.prems(2)] have "Q s'" by simp
    with bb Some show ?thesis unfolding l by simp
  qed
qed

lemma add_departure_time_origins:
  "add_departure_time E A k p0 = (Inr p, reads) \<Longrightarrow> origins p = origins p0"
  by (drule add_departure_time_cases) auto

lemma base_params_origins: "origins (base_params A batch) = join ''|'' (map address batch)"
  by (simp add: base_params_def)

lemma batch_body_None_cases:
  assumes "batch_body E A tb idx i st = (st', None)"
  obtains
    (refused) p reads data where
      "add_departure_time E A (clock_reads st)
         (base_params A (slice (students A) i (i + batch_size))) = (Inr p, reads)"
      "http_get E (length (exchanges st)) p = Inr data" "status data \<noteq> ''OK''"
      "exchanges st' = exchanges st @ [(p, data)]" "results st' = results st"
  | (processed) p reads data new where
      "add_departure_time E A (clock_reads st)
         (base_params A (slice (students A) i (i + batch_size))) = (Inr p, reads)"
      "http_get E (length (exchanges st)) p = Inr data" "status data = ''OK''"
      "exchanges st' = exchanges st @ [(p, data)]" "results st' = results st @ new"
      "length new = length (rows data)"
      "length (rows data) \<le> length (slice (students A) i (i + batch_size))"
      "\<forall>j<length (rows data). \<exists>el els. elements (rows data ! j) = el # els \<and>
          element_row (slice (students A) i (i + batch_size) ! j) el = Inr (new ! j)"
  using assms
proof (cases rule: batch_body_cases)
  case (answered p reads data)
  let ?b = "slice (students A) i (i + batch_size)"
  show thesis
  proof (cases "status data = ''OK''")
    case False
    from batch_body_not_ok [OF answered(1,2) False, of tb idx] assms
    have "results st' = results st" by auto
    with answered False show thesis by (intro refused)
  next
    case True
    from assms have n: "snd (batch_body E A tb idx i st) = None" by simp
    obtain res' where rl: "rows_loop ?b (enumerate 0 (rows data)) (results st) = (res', None)"
      using batch_body_ok_None [OF answered(1,2) True n]
      by (cases "rows_loop ?b (enumerate 0 (rows data)) (results st)") simp
    from rows_loop_None [OF rl] obtain new where
      n': "res' = results st @ new" "length new = length (rows data)"
      and b: "rows data \<noteq> [] \<longrightarrow> 0 + length (rows data) \<le> length ?b"
      and e: "\<forall>j<length (rows data). \<exists>el els. elements (rows data ! j) = el # els \<and>
                 element_row (?b ! (0 + j)) el = Inr (new ! j)"
      by blast
    from batch_body_ok_fields(4) [OF answered(1,2) True, of tb idx] rl n' assms
    have r: "results st' = results st @ new" by simp
    from b have le: "length (rows data) \<le> length ?b" by (cases "rows data") simp_all
    from e have e': "\<forall>j<length (rows data). \<exists>el els. elements (rows data ! j) = el # els \<and>
                 element_row (?b ! j) el = Inr (new ! j)" by simp
    from answered True r n'(2) le e' show thesis by (intro processed)
  qed
qed simp_all

section \<open>The requests and the table of a run\<close>

lemma slice_is_batch:
  assumes "k < length (batches ss)"
  shows "slice ss (k * batch_size) (k * batch_size + batch_size) = batches ss ! k"
  using nth_batches [OF assms] by (simp add: slice_def)

lemma slice_nth:
  assumes "j < length (slice ss i (i + batch_size))"
  shows "i + j < length ss" and "slice ss i (i + batch_size) ! j = ss ! (i + j)"
proof -
  from assms have j: "j < batch_size" "j < length ss - i" by (simp_all add: slice_def)
  then show "i + j < length ss" by simp
  with j show "slice ss i (i + batch_size) ! j = ss ! (i + j)" by (simp add: slice_def)
qed

lemma rows_written_append:
  "rows_written (xs @ ys) = rows_written xs + rows_written ys"
  by (simp add: rows_written_def)

lemma rows_written_single:
  "rows_written [x] = (if status (snd x) = ''OK'' then length (rows (snd x)) else 0)"
  by (simp add: rows_written_def)

lemma rows_written_take_Suc:
  assumes "b < length xs"
  shows "rows_written (take (Suc b) xs) =
           rows_written (take b xs) +
             (if status (snd (xs ! b)) = ''OK'' then length (rows (snd (xs ! b))) else 0)"
  using assms by (simp add: take_Suc_conv_app_nth rows_written_append rows_written_single)

lemma rows_written_take_le: "rows_written (take b xs) \<le> rows_written xs"
proof -
  have "rows_written xs = rows_written (take b xs) + rows_written (drop b xs)"
    using rows_written_append [of "take b xs" "drop b xs"] by simp
  then show ?thesis by simp
qed

lemma rows_placed_refused:
  assumes "rows_placed ss exs res" and "status (snd x) \<noteq> ''OK''"
  shows "rows_placed ss (exs @ [x]) res"
  unfolding rows_placed_def
proof (intro allI impI)
  fix b j
  assume b: "b < length (exs @ [x])" and ok: "status (snd ((exs @ [x]) ! b)) = ''OK''"
    and j: "j < length (rows (snd ((exs @ [x]) ! b)))"
  from b ok assms(2) have lt: "b < length exs" by (cases "b = length exs") auto
  then have n: "(exs @ [x]) ! b = exs ! b" and t: "take b (exs @ [x]) = take b exs"
    by (simp_all add: nth_append)
  from assms(1) lt ok j show "\<exists>el els. elements (rows (snd ((exs @ [x]) ! b)) ! j) = el # els \<and>
       b * batch_size + j < length ss \<and> rows_written (take b (exs @ [x])) + j < length res \<and>
       element_row (ss ! (b * batch_size + j)) el =
         Inr (res ! (rows_written (take b (exs @ [x])) + j))"
    unfolding n t rows_placed_def by blast
qed

lemma rows_placed_processed:
  assumes pl: "rows_placed ss exs res" and len: "length res = rows_written exs"
    and new: "length new = length (rows (snd x))"
    and each: "\<forall>j<length (rows (snd x)). \<exists>el els. elements (rows (snd x) ! j) = el # els \<and>
                 length exs * batch_size + j < length ss \<and>
                 element_row (ss ! (length exs * batch_size + j)) el = Inr (new ! j)"
  shows "rows_placed ss (exs @ [x]) (res @ new)"
  unfolding rows_placed_def
proof (intro allI impI)
  fix b j
  assume b: "b < length (exs @ [x])" and ok: "status (snd ((exs @ [x]) ! b)) = ''OK''"
    and j: "j < length (rows (snd ((exs @ [x]) ! b)))"
  show "\<exists>el els. elements (rows (snd ((exs @ [x]) ! b)) ! j) = el # els \<and>
       b * batch_size + j < length ss \<and>
       rows_written (take b (exs @ [x])) + j < length (res @ new) \<and>
       element_row (ss ! (b * batch_size + j)) el =
         Inr ((res @ new) ! (rows_written (take b (exs @ [x])) + j))"
  proof (cases "b < length exs")
    case True
    then have n: "(exs @ [x]) ! b = exs ! b" and t: "take b (exs @ [x]) = take b exs"
      by (simp_all add: nth_append)
    from pl True ok j obtain el els where
      e: "elements (rows (snd (exs ! b)) ! j) = el # els"
        "b * batch_size + j < length ss"
        "rows_written (take b exs) + j < length res"
        "element_row (ss ! (b * batch_size + j)) el = Inr (res ! (rows_written (take b exs) + j))"
      unfolding n rows_placed_def by blast
    from e(3) have "(res @ new) ! (rows_written (take b exs) + j) =
                    res ! (rows_written (take b exs) + j)"
      by (simp add: nth_append)
    with e show ?thesis unfolding n t by auto
  next
    case False
    with b have be: "b = length exs" by simp
    then have n: "(exs @ [x]) ! b = x" and t: "take b (exs @ [x]) = exs" by simp_all
    from j have j': "j < length (rows (snd x))" unfolding n .
    with each obtain el els where
      e: "elements (rows (snd x) ! j) = el # els"
        "length exs * batch_size + j < length ss"
        "element_row (ss ! (length exs * batch_size + j)) el = Inr (new ! j)"
      by blast
    from len have "(res @ new) ! (rows_written exs + j) = new ! j"
      by (simp add: nth_append)
    moreover from len new j' have "rows_written exs + j < length (res @ new)" by simp
    ultimately show ?thesis using e unfolding n t be by auto
  qed
qed

lemma run_requests:
  "map (origins \<circ> fst) (exchanges (fst (run_commute_times E A))) =
     map (\<lambda>b. join ''|'' (map address b))
       (take (length (exchanges (fst (run_commute_times E A)))) (batches (students A))) \<and>
   length (exchanges (fst (run_commute_times E A))) \<le> length (batches (students A)) \<and>
   (snd (run_commute_times E A) = None \<longrightarrow>
      length (exchanges (fst (run_commute_times E A))) = length (batches (students A)))"
proof -
  let ?ss = "students A"
  let ?f = "\<lambda>b. join ''|'' (map address b)"
  let ?n = "length (batches ?ss)"
  let ?tb = "(length ?ss + batch_size - 1) div batch_size"
  let ?P = "\<lambda>k s. length (exchanges s) = k \<and>
              map (origins \<circ> fst) (exchanges s) = map ?f (take k (batches ?ss))"
  let ?Q = "\<lambda>s. length (exchanges s) \<le> ?n \<and>
              map (origins \<circ> fst) (exchanges s) =
                map ?f (take (length (exchanges s)) (batches ?ss))"
  have grow: "?P (Suc k) s'"
    if k: "k < ?n" and p: "?P k s"
      and a: "add_departure_time E A (clock_reads s)
                (base_params A (slice ?ss (k * batch_size) (k * batch_size + batch_size))) =
              (Inr q, reads)"
      and e: "exchanges s' = exchanges s @ [(q, data)]"
    for k s s' q reads data
  proof -
    from add_departure_time_origins [OF a]
    have "origins q = ?f (batches ?ss ! k)"
      by (simp add: base_params_origins slice_is_batch [OF k])
    with p e k show ?thesis by (simp add: take_Suc_conv_app_nth)
  qed
  have "?Q (fst (batch_loop E A ?tb (map (\<lambda>k. (k, k * batch_size)) [0..<?n]) init_state)) \<and>
        (snd (batch_loop E A ?tb (map (\<lambda>k. (k, k * batch_size)) [0..<?n]) init_state) = None \<longrightarrow>
           ?P ?n (fst (batch_loop E A ?tb (map (\<lambda>k. (k, k * batch_size)) [0..<?n]) init_state)))"
  proof (rule batch_loop_indexed [where P = ?P and Q = ?Q])
    show "0 \<le> ?n" by simp
    show "?P 0 init_state" by (simp add: init_state_def)
  next
    fix k s assume "k \<le> ?n" "?P k s"
    then show "?Q s" by simp
  next
    fix k s s' assume k: "k < ?n" and p: "?P k s"
      and b: "batch_body E A ?tb k (k * batch_size) s = (s', None)"
    from b show "?P (Suc k) s'"
    proof (cases rule: batch_body_cases)
      case (answered q reads data)
      show ?thesis by (rule grow [OF k p answered(1,3)])
    qed simp_all
  next
    fix k s s' e assume k: "k < ?n" and p: "?P k s"
      and b: "batch_body E A ?tb k (k * batch_size) s = (s', Some e)"
    from b show "?Q s'"
    proof (cases rule: batch_body_cases)
      case (answered q reads data)
      from grow [OF k p answered(1,3)] k show ?thesis by simp
    next
      case (resolver_error e' reads)
      with p k show ?thesis by simp
    next
      case (http_error q reads e')
      with p k show ?thesis by simp
    qed
  qed
  then show ?thesis unfolding run_indexed by simp
qed

lemma run_table:
  assumes "run_commute_times E A = (st, None)"
  shows "length (exchanges st) = length (batches (students A))"
    and "length (results st) = rows_written (exchanges st)"
    and "rows_placed (students A) (exchanges st) (results st)"
proof -
  let ?ss = "students A"
  let ?n = "length (batches ?ss)"
  let ?tb = "(length ?ss + batch_size - 1) div batch_size"
  let ?P = "\<lambda>k s. length (exchanges s) = k \<and> length (results s) = rows_written (exchanges s) \<and>
              rows_placed ?ss (exchanges s) (results s)"
  let ?L = "batch_loop E A ?tb (map (\<lambda>k. (k, k * batch_size)) [0..<?n]) init_state"
  have "True \<and> (snd ?L = None \<longrightarrow> ?P ?n (fst ?L))"
  proof (rule batch_loop_indexed [where P = ?P and Q = "\<lambda>s. True"])
    show "0 \<le> ?n" by simp
    show "?P 0 init_state" by (simp add: init_state_def rows_written_def rows_placed_def)
  next
    fix k s s' assume k: "k < ?n" and p: "?P k s"
      and b: "batch_body E A ?tb k (k * batch_size) s = (s', None)"
    let ?b = "slice ?ss (k * batch_size) (k * batch_size + batch_size)"
    from b show "?P (Suc k) s'"
    proof (cases rule: batch_body_None_cases)
      case (refused q reads data)
      from p refused(3) have "rows_placed ?ss (exchanges s @ [(q, data)]) (results s)"
        by (intro rows_placed_refused) simp_all
      with p refused show ?thesis
        by (simp add: rows_written_append rows_written_single)
    next
      case (processed q reads data new)
      have each: "\<forall>j<length (rows (snd (q, data))).
          \<exists>el els. elements (rows (snd (q, data)) ! j) = el # els \<and>
            length (exchanges s) * batch_size + j < length ?ss \<and>
            element_row (?ss ! (length (exchanges s) * batch_size + j)) el = Inr (new ! j)"
      proof (intro allI impI)
        fix j assume "j < length (rows (snd (q, data)))"
        then have j: "j < length (rows data)" by simp
        with processed(7) have jb: "j < length ?b" by simp
        from processed(8) j obtain el els where
          e: "elements (rows data ! j) = el # els" "element_row (?b ! j) el = Inr (new ! j)"
          by blast
        from slice_nth [OF jb] e p
        show "\<exists>el els. elements (rows (snd (q, data)) ! j) = el # els \<and>
            length (exchanges s) * batch_size + j < length ?ss \<and>
            element_row (?ss ! (length (exchanges s) * batch_size + j)) el = Inr (new ! j)"
          by simp
      qed
      from p processed(6) have
        "rows_placed ?ss (exchanges s @ [(q, data)]) (results s @ new)"
        by (intro rows_placed_processed [OF _ _ _ each]) simp_all
      with p processed show ?thesis
        by (simp add: rows_written_append rows_written_single)
    qed
  qed simp_all
  with assms have "?P ?n st" unfolding run_indexed by simp
  then show "length (exchanges st) = length (batches (students A))"
    and "length (results st) = rows_written (exchanges st)"
    and "rows_placed (students A) (exchanges st) (results st)"
    by simp_all
qed

section \<open>A failed element in an iteration and in the table\<close>

lemma failure_in_iteration:
  assumes f: "el_status el \<noteq> ''OK''"
    and a: "add_departure_time E A (clock_reads st)
              (base_params A (slice (students A) i (i + batch_size))) = (Inr p, reads)"
    and g: "http_get E (length (exchanges st)) p = Inr data"
    and s: "status data = ''OK''"
    and n: "snd (batch_body E A tb idx i st) = None"
    and k: "k < length (rows data)"
    and e: "elements (rows data ! k) = el # els"
  shows "i + k < length (students A)"
    and "length (results (fst (batch_body E A tb idx i st))) =
           length (results st) + length (rows data)"
    and "take (length (results st)) (results (fst (batch_body E A tb idx i st))) = results st"
    and "results (fst (batch_body E A tb idx i st)) ! (length (results st) + k) =
           failure_row (students A ! (i + k)) (el_status el)"
proof -
  let ?b = "slice (students A) i (i + batch_size)"
  obtain res' where rl: "rows_loop ?b (enumerate 0 (rows data)) (results st) = (res', None)"
    using batch_body_ok_None [OF a g s n]
    by (cases "rows_loop ?b (enumerate 0 (rows data)) (results st)") simp
  from rows_loop_None [OF rl] obtain new where
    r': "res' = results st @ new" and len: "length new = length (rows data)"
    and bound: "rows data \<noteq> [] \<longrightarrow> 0 + length (rows data) \<le> length ?b"
    and each: "\<forall>j<length (rows data). \<exists>el els. elements (rows data ! j) = el # els \<and>
                 element_row (?b ! (0 + j)) el = Inr (new ! j)"
    by blast
  from batch_body_ok_fields(4) [OF a g s, of tb idx] rl r'
  have res: "results (fst (batch_body E A tb idx i st)) = results st @ new" by simp
  from k bound have kb: "k < length ?b" by (cases "rows data") auto
  note sl = slice_nth [OF kb]
  from sl(1) show "i + k < length (students A)" .
  from res len show "length (results (fst (batch_body E A tb idx i st))) =
           length (results st) + length (rows data)" by simp
  from res show "take (length (results st)) (results (fst (batch_body E A tb idx i st))) =
           results st" by simp
  from each k e have "element_row (?b ! k) el = Inr (new ! k)" by auto
  with element_row_failure [OF f, of "?b ! k"] sl(2)
  have "new ! k = failure_row (students A ! (i + k)) (el_status el)" by simp
  with res len k show "results (fst (batch_body E A tb idx i st)) ! (length (results st) + k) =
           failure_row (students A ! (i + k)) (el_status el)"
    by (simp add: nth_append)
qed

lemma failure_in_table:
  assumes f: "el_status el \<noteq> ''OK''"
    and r: "run_commute_times E A = (fin, None)"
    and b: "b < length (exchanges fin)"
    and s: "status (snd (exchanges fin ! b)) = ''OK''"
    and k: "k < length (rows (snd (exchanges fin ! b)))"
    and e: "elements (rows (snd (exchanges fin ! b)) ! k) = el # els"
  shows "calculate_commute_times E A = Inr (results fin)"
    and "b * batch_size + k < length (students A)"
    and "rows_written (take b (exchanges fin)) + k < length (results fin)"
    and "results fin ! (rows_written (take b (exchanges fin)) + k) =
           failure_row (students A ! (b * batch_size + k)) (el_status el)"
proof -
  from r show "calculate_commute_times E A = Inr (results fin)"
    by (simp add: calculate_commute_times_def)
  from run_table(3) [OF r] b s k obtain el' els' where
    p: "elements (rows (snd (exchanges fin ! b)) ! k) = el' # els'"
      "b * batch_size + k < length (students A)"
      "rows_written (take b (exchanges fin)) + k < length (results fin)"
      "element_row (students A ! (b * batch_size + k)) el' =
         Inr (results fin ! (rows_written (take b (exchanges fin)) + k))"
    unfolding rows_placed_def by blast
  from p(1) e have "el' = el" by simp
  with p element_row_failure [OF f, of "students A ! (b * batch_size + k)"]
  show "b * batch_size + k < length (students A)"
    and "rows_written (take b (exchanges fin)) + k < length (results fin)"
    and "results fin ! (rows_written (take b (exchanges fin)) + k) =
           failure_row (students A ! (b * batch_size + k)) (el_status el)"
    by simp_all
qed

lemma roster26_batches: "batches roster26 = [replicate 25 kim, [lee]]"
proof -
  have "[0..<(26 + 25 - 1) div 25] = [0, Suc 0]" by (simp add: upt_rec)
  then show ?thesis
    by (simp add: batches_eq batch_size_def roster26_def)
qed

text \<open>
  Claim C6. The loop cuts the roster into consecutive slices: joined in order they give
  the roster back, there are \<open>(len + 24) div 25\<close> of them, slice \<open>k\<close> is the 25 entries
  from index \<open>25 * k\<close> (fewer at the end of the roster), none is empty or longer than
  25, every slice but the last has exactly 25 entries, and 60 students give slices of
  25, 25 and 10. These are the slices of a run: the loop of \<open>run_commute_times\<close> goes
  through the pairs \<open>(k, 25 * k)\<close>, one for each of them in order, iteration \<open>k\<close> slices out
  exactly slice \<open>k\<close> and asks for its addresses, the requests a run has sent are those of
  the first slices in order, and a run that ends without an exception has sent one request
  for every slice.
\<close>

theorem batches_partition:
  "concat (batches ss) = ss \<and>
   length (batches ss) = (length ss + 25 - 1) div 25 \<and>
   (\<forall>k < length (batches ss).
      batches ss ! k = take 25 (drop (k * 25) ss) \<and>
      1 \<le> length (batches ss ! k) \<and> length (batches ss ! k) \<le> 25 \<and>
      (Suc k < length (batches ss) \<longrightarrow> length (batches ss ! k) = 25)) \<and>
   (length ss = 60 \<longrightarrow> map length (batches ss) = [25, 25, 10]) \<and>
   enumerate 0 (batch_starts 0 (length (students A))) =
     map (\<lambda>k. (k, k * 25)) [0..<length (batches (students A))] \<and>
   run_commute_times E A =
     batch_loop E A ((length (students A) + 25 - 1) div 25)
       (map (\<lambda>k. (k, k * 25)) [0..<length (batches (students A))]) init_state \<and>
   (\<forall>k < length (batches (students A)).
      slice (students A) (k * 25) (k * 25 + batch_size) = batches (students A) ! k \<and>
      origins (base_params A (slice (students A) (k * 25) (k * 25 + batch_size))) =
        join ''|'' (map address (batches (students A) ! k))) \<and>
   length (exchanges (fst (run_commute_times E A))) \<le> length (batches (students A)) \<and>
   map (origins \<circ> fst) (exchanges (fst (run_commute_times E A))) =
     map (\<lambda>b. join ''|'' (map address b))
       (take (length (exchanges (fst (run_commute_times E A)))) (batches (students A))) \<and>
   (snd (run_commute_times E A) = None \<longrightarrow>
      length (exchanges (fst (run_commute_times E A))) = length (batches (students A)) \<and>
      map (origins \<circ> fst) (exchanges (fst (run_commute_times E A))) =
        map (\<lambda>b. join ''|'' (map address b)) (batches (students A)))"
proof -
  let ?R = "run_commute_times E A"
  let ?B = "batches (students A)"
  let ?f = "\<lambda>b. join ''|'' (map address b)"
  have c1: "concat (batches ss) = ss" by (rule concat_batches)
  have c2: "length (batches ss) = (length ss + 25 - 1) div 25"
    using length_batches [of ss] by (simp add: batch_size_def)
  have c3: "\<forall>k < length (batches ss).
      batches ss ! k = take 25 (drop (k * 25) ss) \<and>
      1 \<le> length (batches ss ! k) \<and> length (batches ss ! k) \<le> 25 \<and>
      (Suc k < length (batches ss) \<longrightarrow> length (batches ss ! k) = 25)"
  proof (intro allI impI conjI)
    fix k assume k: "k < length (batches ss)"
    show "batches ss ! k = take 25 (drop (k * 25) ss)"
      using nth_batches [OF k] by (simp add: batch_size_def)
    show "1 \<le> length (batches ss ! k)" by (rule length_nth_batch(1) [OF k])
    show "length (batches ss ! k) \<le> 25"
      using length_nth_batch(2) [OF k] by (simp add: batch_size_def)
  next
    fix k assume "k < length (batches ss)" "Suc k < length (batches ss)"
    then show "length (batches ss ! k) = 25"
      using length_nth_batch(3) [of k ss] by (simp add: batch_size_def)
  qed
  have c4: "length ss = 60 \<longrightarrow> map length (batches ss) = [25, 25, 10]"
    using batches_60 [of ss] by blast
  have c5: "enumerate 0 (batch_starts 0 (length (students A))) =
     map (\<lambda>k. (k, k * 25)) [0..<length ?B]"
    using loop_list [of "students A"] by (simp only: batch_size_def)
  have c6: "?R = batch_loop E A ((length (students A) + 25 - 1) div 25)
       (map (\<lambda>k. (k, k * 25)) [0..<length ?B]) init_state"
    using run_indexed [of E A] by (simp only: batch_size_def)
  have c7: "\<forall>k < length ?B.
      slice (students A) (k * 25) (k * 25 + batch_size) = ?B ! k \<and>
      origins (base_params A (slice (students A) (k * 25) (k * 25 + batch_size))) =
        join ''|'' (map address (?B ! k))"
  proof (intro allI impI)
    fix k assume k: "k < length ?B"
    from slice_is_batch [OF k]
    have s: "slice (students A) (k * 25) (k * 25 + batch_size) = ?B ! k"
      by (simp add: batch_size_def)
    then show "slice (students A) (k * 25) (k * 25 + batch_size) = ?B ! k \<and>
      origins (base_params A (slice (students A) (k * 25) (k * 25 + batch_size))) =
        join ''|'' (map address (?B ! k))"
      by (simp only: base_params_origins)
  qed
  note rr = run_requests [of E A]
  from rr have c8: "length (exchanges (fst ?R)) \<le> length ?B" by blast
  from rr have c9: "map (origins \<circ> fst) (exchanges (fst ?R)) =
     map ?f (take (length (exchanges (fst ?R))) ?B)" by blast
  have c10: "snd ?R = None \<longrightarrow>
      length (exchanges (fst ?R)) = length ?B \<and>
      map (origins \<circ> fst) (exchanges (fst ?R)) = map ?f ?B"
  proof
    assume "snd ?R = None"
    with rr have l: "length (exchanges (fst ?R)) = length ?B" by blast
    with c9 show "length (exchanges (fst ?R)) = length ?B \<and>
      map (origins \<circ> fst) (exchanges (fst ?R)) = map ?f ?B" by simp
  qed
  show ?thesis
    by (intro conjI) (rule c1, rule c2, rule c3, rule c4, rule c5, rule c6, rule c7, rule c8,
        rule c9, rule c10)
qed

theorem batches_partition_witness:
  "map length (batches (replicate 60 \<lparr>name = ''A'', address = ''B''\<rparr>)) = [25, 25, 10] \<and>
   concat (batches (replicate 60 \<lparr>name = ''A'', address = ''B''\<rparr>)) =
     replicate 60 \<lparr>name = ''A'', address = ''B''\<rparr> \<and>
   length (batches (replicate 60 \<lparr>name = ''A'', address = ''B''\<rparr>)) = 3 \<and>
   length (batches (replicate 60 \<lparr>name = ''A'', address = ''B''\<rparr>) ! 2) = 10 \<and>
   snd (run_commute_times env_tick args26) = None \<and>
   length (exchanges (fst (run_commute_times env_tick args26))) = 2 \<and>
   map (origins \<circ> fst) (exchanges (fst (run_commute_times env_tick args26))) =
     [join ''|'' (map address (replicate 25 kim)), ''Seongnam 456''] \<and>
   slice (students args26) 25 (25 + batch_size) = [lee]"
proof -
  let ?ss = "replicate 60 \<lparr>name = ''A'', address = ''B''\<rparr>"
  let ?R = "run_commute_times env_tick args26"
  note t = batches_partition [of ?ss args26 env_tick]
  have l: "length ?ss = 60" by simp
  from t l
  have m: "map length (batches ?ss) = [25, 25, 10]" and c: "concat (batches ?ss) = ?ss"
    by blast+
  from m have "length (map length (batches ?ss)) = 3" by simp
  then have n: "length (batches ?ss) = 3" by simp
  have "length (batches ?ss ! 2) = map length (batches ?ss) ! 2"
    using n by simp
  with m have n2: "length (batches ?ss ! 2) = 10" by simp
  have b: "batches (students args26) = [replicate 25 kim, [lee]]"
    by (simp only: args26_fields roster26_batches)
  from tick_run have r: "snd ?R = None" by auto
  with t have "length (exchanges (fst ?R)) = length (batches (students args26))"
    and "map (origins \<circ> fst) (exchanges (fst ?R)) =
           map (\<lambda>b. join ''|'' (map address b)) (batches (students args26))"
    by blast+
  then have e: "length (exchanges (fst ?R)) = 2"
    and o: "map (origins \<circ> fst) (exchanges (fst ?R)) =
           [join ''|'' (map address (replicate 25 kim)), ''Seongnam 456'']"
    unfolding b by (simp_all add: lee_def)
  have "Suc 0 < length (batches (students args26))" unfolding b by simp
  with t have "slice (students args26) (Suc 0 * 25) (Suc 0 * 25 + batch_size) =
                 batches (students args26) ! Suc 0"
    by blast
  then have s: "slice (students args26) 25 (25 + batch_size) = [lee]"
    unfolding b by simp
  from m c n n2 r e o s show ?thesis by blast
qed

text \<open>
  Claim C8. For an element with status \<^verbatim>\<open>"OK"\<close> that carries its distance and duration,
  the row's minutes are the seconds divided by 60 and rounded down: the quotient \<open>q\<close>
  with \<open>60 * q \<le> seconds < 60 * q + 60\<close>. 119 seconds give 1 minute, 120 seconds give 2.
\<close>

theorem duration_minutes_floor:
  "(\<exists>r. element_row s \<lparr>el_status = ''OK'', distance = Some dst, duration = Some dur\<rparr> = Inr r \<and>
        col_duration_min r = Some (value_field dur div 60) \<and>
        60 * (value_field dur div 60) \<le> value_field dur \<and>
        value_field dur < 60 * (value_field dur div 60) + 60) \<and>
   (\<exists>r. element_row s \<lparr>el_status = ''OK'', distance = Some dst,
                        duration = Some \<lparr>text_field = t, value_field = 119\<rparr>\<rparr> = Inr r \<and>
        col_duration_min r = Some 1) \<and>
   (\<exists>r. element_row s \<lparr>el_status = ''OK'', distance = Some dst,
                        duration = Some \<lparr>text_field = t, value_field = 120\<rparr>\<rparr> = Inr r \<and>
        col_duration_min r = Some 2)"
proof (intro conjI)
  have "60 * (value_field dur div 60) \<le> value_field dur"
    and "value_field dur < 60 * (value_field dur div 60) + 60"
    by presburger+
  then show "\<exists>r. element_row s \<lparr>el_status = ''OK'', distance = Some dst, duration = Some dur\<rparr> = Inr r \<and>
        col_duration_min r = Some (value_field dur div 60) \<and>
        60 * (value_field dur div 60) \<le> value_field dur \<and>
        value_field dur < 60 * (value_field dur div 60) + 60"
    by (simp add: element_row_def)
  show "\<exists>r. element_row s \<lparr>el_status = ''OK'', distance = Some dst,
                        duration = Some \<lparr>text_field = t, value_field = 119\<rparr>\<rparr> = Inr r \<and>
        col_duration_min r = Some 1"
    by (simp add: element_row_def)
  show "\<exists>r. element_row s \<lparr>el_status = ''OK'', distance = Some dst,
                        duration = Some \<lparr>text_field = t, value_field = 120\<rparr>\<rparr> = Inr r \<and>
        col_duration_min r = Some 2"
    by (simp add: element_row_def)
qed

text \<open>
  Claim C5. For an element whose status is not \<^verbatim>\<open>"OK"\<close>, the loop body builds one row
  with the student's name and address, the error label followed by the status in both
  text columns, and no number in the two numeric columns; the row loop appends exactly
  this row and goes on, and when it completes the row stands at the element's position.
  An iteration of the batch loop that gets an \<^verbatim>\<open>"OK"\<close> answer and completes has kept the
  earlier rows, has added one row per response row, and the row for element \<open>k\<close> is that
  row, for student \<open>i + k\<close> of the roster. In a run that ends without an exception the
  table returned holds that row, for student \<open>25 * b + k\<close>, right after the rows written
  for the answers before answer \<open>b\<close>: the student is in the table.
\<close>

theorem element_failure_recorded:
  assumes "el_status el \<noteq> ''OK''"
  shows "element_row s el =
           Inr \<lparr>col_name = name s, col_address = address s,
                col_distance = oryu @ '': '' @ el_status el, col_distance_m = None,
                col_duration = oryu @ '': '' @ el_status el, col_duration_min = None\<rparr> \<and>
         (j < length batch \<and> elements r = el # els \<longrightarrow>
            rows_loop batch ((j, r) # rest) res =
              rows_loop batch rest (res @ [failure_row (batch ! j) (el_status el)])) \<and>
         (rows_loop batch (enumerate 0 rs) res0 = (res', None) \<and> k < length rs \<and>
          elements (rs ! k) = el # els \<longrightarrow>
            k < length batch \<and> length res' = length res0 + length rs \<and>
            res' ! (length res0 + k) = failure_row (batch ! k) (el_status el) \<and>
            col_name (res' ! (length res0 + k)) = name (batch ! k) \<and>
            col_address (res' ! (length res0 + k)) = address (batch ! k)) \<and>
         (add_departure_time E A (clock_reads st)
            (base_params A (slice (students A) i (i + batch_size))) = (Inr p, reads) \<and>
          http_get E (length (exchanges st)) p = Inr data \<and> status data = ''OK'' \<and>
          snd (batch_body E A tb idx i st) = None \<and>
          k < length (rows data) \<and> elements (rows data ! k) = el # els \<longrightarrow>
            i + k < length (students A) \<and>
            length (results (fst (batch_body E A tb idx i st))) =
              length (results st) + length (rows data) \<and>
            take (length (results st)) (results (fst (batch_body E A tb idx i st))) =
              results st \<and>
            results (fst (batch_body E A tb idx i st)) ! (length (results st) + k) =
              failure_row (students A ! (i + k)) (el_status el)) \<and>
         (run_commute_times E A = (fin, None) \<and> b < length (exchanges fin) \<and>
          status (snd (exchanges fin ! b)) = ''OK'' \<and>
          k < length (rows (snd (exchanges fin ! b))) \<and>
          elements (rows (snd (exchanges fin ! b)) ! k) = el # els \<longrightarrow>
            calculate_commute_times E A = Inr (results fin) \<and>
            b * 25 + k < length (students A) \<and>
            rows_written (take b (exchanges fin)) + k < length (results fin) \<and>
            results fin ! (rows_written (take b (exchanges fin)) + k) =
              failure_row (students A ! (b * 25 + k)) (el_status el) \<and>
            col_name (results fin ! (rows_written (take b (exchanges fin)) + k)) =
              name (students A ! (b * 25 + k)) \<and>
            col_address (results fin ! (rows_written (take b (exchanges fin)) + k)) =
              address (students A ! (b * 25 + k)))"
proof -
  have c1: "element_row s el =
           Inr \<lparr>col_name = name s, col_address = address s,
                col_distance = oryu @ '': '' @ el_status el, col_distance_m = None,
                col_duration = oryu @ '': '' @ el_status el, col_duration_min = None\<rparr>"
    using assms by (simp add: element_row_def Let_def)
  have c2: "j < length batch \<and> elements r = el # els \<longrightarrow>
            rows_loop batch ((j, r) # rest) res =
              rows_loop batch rest (res @ [failure_row (batch ! j) (el_status el)])"
    using element_row_failure [OF assms, of "batch ! j"] by simp
  have c3: "rows_loop batch (enumerate 0 rs) res0 = (res', None) \<and> k < length rs \<and>
          elements (rs ! k) = el # els \<longrightarrow>
            k < length batch \<and> length res' = length res0 + length rs \<and>
            res' ! (length res0 + k) = failure_row (batch ! k) (el_status el) \<and>
            col_name (res' ! (length res0 + k)) = name (batch ! k) \<and>
            col_address (res' ! (length res0 + k)) = address (batch ! k)"
  proof
    assume a: "rows_loop batch (enumerate 0 rs) res0 = (res', None) \<and> k < length rs \<and>
          elements (rs ! k) = el # els"
    then have run: "rows_loop batch (enumerate 0 rs) res0 = (res', None)"
      and k: "k < length rs" and e: "elements (rs ! k) = el # els" by simp_all
    from rows_loop_None [OF run] obtain new where
      r': "res' = res0 @ new" and len: "length new = length rs"
      and bound: "rs \<noteq> [] \<longrightarrow> 0 + length rs \<le> length batch"
      and each: "\<forall>k<length rs. \<exists>el els. elements (rs ! k) = el # els \<and>
                   element_row (batch ! (0 + k)) el = Inr (new ! k)"
      by blast
    from k bound have kb: "k < length batch" by auto
    from r' len have l: "length res' = length res0 + length rs" by simp
    from each k e have "element_row (batch ! k) el = Inr (new ! k)" by auto
    with element_row_failure [OF assms, of "batch ! k"]
    have "new ! k = failure_row (batch ! k) (el_status el)" by simp
    with r' len k have f: "res' ! (length res0 + k) = failure_row (batch ! k) (el_status el)"
      by (simp add: nth_append)
    from f have "col_name (res' ! (length res0 + k)) = name (batch ! k)"
      "col_address (res' ! (length res0 + k)) = address (batch ! k)"
      by (simp_all add: failure_row_def)
    with kb l f show "k < length batch \<and> length res' = length res0 + length rs \<and>
            res' ! (length res0 + k) = failure_row (batch ! k) (el_status el) \<and>
            col_name (res' ! (length res0 + k)) = name (batch ! k) \<and>
            col_address (res' ! (length res0 + k)) = address (batch ! k)"
      by simp
  qed
  have c4: "add_departure_time E A (clock_reads st)
            (base_params A (slice (students A) i (i + batch_size))) = (Inr p, reads) \<and>
          http_get E (length (exchanges st)) p = Inr data \<and> status data = ''OK'' \<and>
          snd (batch_body E A tb idx i st) = None \<and>
          k < length (rows data) \<and> elements (rows data ! k) = el # els \<longrightarrow>
            i + k < length (students A) \<and>
            length (results (fst (batch_body E A tb idx i st))) =
              length (results st) + length (rows data) \<and>
            take (length (results st)) (results (fst (batch_body E A tb idx i st))) =
              results st \<and>
            results (fst (batch_body E A tb idx i st)) ! (length (results st) + k) =
              failure_row (students A ! (i + k)) (el_status el)"
  proof
    assume h: "add_departure_time E A (clock_reads st)
            (base_params A (slice (students A) i (i + batch_size))) = (Inr p, reads) \<and>
          http_get E (length (exchanges st)) p = Inr data \<and> status data = ''OK'' \<and>
          snd (batch_body E A tb idx i st) = None \<and>
          k < length (rows data) \<and> elements (rows data ! k) = el # els"
    then have a: "add_departure_time E A (clock_reads st)
            (base_params A (slice (students A) i (i + batch_size))) = (Inr p, reads)"
      and g: "http_get E (length (exchanges st)) p = Inr data" and s: "status data = ''OK''"
      and n: "snd (batch_body E A tb idx i st) = None"
      and k: "k < length (rows data)" and e: "elements (rows data ! k) = el # els"
      by simp_all
    from failure_in_iteration [OF assms a g s n k e]
    show "i + k < length (students A) \<and>
            length (results (fst (batch_body E A tb idx i st))) =
              length (results st) + length (rows data) \<and>
            take (length (results st)) (results (fst (batch_body E A tb idx i st))) =
              results st \<and>
            results (fst (batch_body E A tb idx i st)) ! (length (results st) + k) =
              failure_row (students A ! (i + k)) (el_status el)"
      by simp
  qed
  have c5: "run_commute_times E A = (fin, None) \<and> b < length (exchanges fin) \<and>
          status (snd (exchanges fin ! b)) = ''OK'' \<and>
          k < length (rows (snd (exchanges fin ! b))) \<and>
          elements (rows (snd (exchanges fin ! b)) ! k) = el # els \<longrightarrow>
            calculate_commute_times E A = Inr (results fin) \<and>
            b * 25 + k < length (students A) \<and>
            rows_written (take b (exchanges fin)) + k < length (results fin) \<and>
            results fin ! (rows_written (take b (exchanges fin)) + k) =
              failure_row (students A ! (b * 25 + k)) (el_status el) \<and>
            col_name (results fin ! (rows_written (take b (exchanges fin)) + k)) =
              name (students A ! (b * 25 + k)) \<and>
            col_address (results fin ! (rows_written (take b (exchanges fin)) + k)) =
              address (students A ! (b * 25 + k))"
  proof
    assume h: "run_commute_times E A = (fin, None) \<and> b < length (exchanges fin) \<and>
          status (snd (exchanges fin ! b)) = ''OK'' \<and>
          k < length (rows (snd (exchanges fin ! b))) \<and>
          elements (rows (snd (exchanges fin ! b)) ! k) = el # els"
    then have r: "run_commute_times E A = (fin, None)" and b: "b < length (exchanges fin)"
      and s: "status (snd (exchanges fin ! b)) = ''OK''"
      and k: "k < length (rows (snd (exchanges fin ! b)))"
      and e: "elements (rows (snd (exchanges fin ! b)) ! k) = el # els"
      by simp_all
    note t = failure_in_table [OF assms r b s k e]
    from t(4) have "col_name (results fin ! (rows_written (take b (exchanges fin)) + k)) =
              name (students A ! (b * batch_size + k))"
      "col_address (results fin ! (rows_written (take b (exchanges fin)) + k)) =
              address (students A ! (b * batch_size + k))"
      by (simp_all add: failure_row_def)
    with t show "calculate_commute_times E A = Inr (results fin) \<and>
            b * 25 + k < length (students A) \<and>
            rows_written (take b (exchanges fin)) + k < length (results fin) \<and>
            results fin ! (rows_written (take b (exchanges fin)) + k) =
              failure_row (students A ! (b * 25 + k)) (el_status el) \<and>
            col_name (results fin ! (rows_written (take b (exchanges fin)) + k)) =
              name (students A ! (b * 25 + k)) \<and>
            col_address (results fin ! (rows_written (take b (exchanges fin)) + k)) =
              address (students A ! (b * 25 + k))"
      by (simp add: batch_size_def)
  qed
  show ?thesis by (intro conjI) (rule c1, rule c2, rule c3, rule c4, rule c5)
qed

theorem element_failure_recorded_witness:
  "el_status el_not_found \<noteq> ''OK'' \<and>
   rows_loop roster3 (enumerate 0 rows3) [] = (table3, None) \<and>
   table3 ! 1 = failure_row lee ''NOT_FOUND'' \<and>
   snd (batch_body env3 args3 1 0 0 init_state) = None \<and>
   results (fst (batch_body env3 args3 1 0 0 init_state)) ! 1 = failure_row lee ''NOT_FOUND'' \<and>
   length (results (fst (batch_body env3 args3 1 0 0 init_state))) = 3 \<and>
   snd (run_commute_times env3 args3) = None \<and>
   status (snd (exchanges (fst (run_commute_times env3 args3)) ! 0)) = ''OK'' \<and>
   calculate_commute_times env3 args3 = Inr table3 \<and>
   results (fst (run_commute_times env3 args3)) ! 1 = failure_row lee ''NOT_FOUND'' \<and>
   col_name (results (fst (run_commute_times env3 args3)) ! 1) = ''Lee'' \<and>
   col_address (results (fst (run_commute_times env3 args3)) ! 1) = ''Seongnam 456''"
proof -
  let ?fin = "fst (run_commute_times env3 args3)"
  let ?bb = "batch_body env3 args3 1 0 0 init_state"
  have h: "el_status el_not_found \<noteq> ''OK''" by (simp add: el_not_found_def)
  have k: "(1::nat) < length rows3" and e: "elements (rows3 ! 1) = el_not_found # []"
    by (simp_all add: rows3_def)
  note t = element_failure_recorded [OF h, where batch = roster3 and rs = rows3
      and ?res0.0 = "[]" and res' = table3 and k = 1 and els = "[]"
      and E = env3 and A = args3 and st = init_state and i = 0 and tb = 1 and idx = 0
      and p = "base_params args3 roster3" and reads = 0 and data = resp3
      and fin = ?fin and b = 0]
  \<comment> \<open>the row loop\<close>
  from t [THEN conjunct2, THEN conjunct2, THEN conjunct1] rows3_loop k e
  have "table3 ! (length ([] :: result_row list) + 1) =
          failure_row (roster3 ! 1) (el_status el_not_found)"
    by blast
  then have w3: "table3 ! 1 = failure_row lee ''NOT_FOUND''"
    by (simp add: roster3_def el_not_found_def)
  \<comment> \<open>the iteration\<close>
  have g: "http_get env3 (length (exchanges init_state)) (base_params args3 roster3) = Inr resp3"
    by (simp add: env3_def)
  have s: "status resp3 = ''OK''" by (simp add: resp3_def)
  have n: "snd ?bb = None" unfolding env3_body by simp
  have k': "(1::nat) < length (rows resp3)"
    and e': "elements (rows resp3 ! 1) = el_not_found # []"
    by (simp_all add: resp3_def rows3_def)
  from t [THEN conjunct2, THEN conjunct2, THEN conjunct2, THEN conjunct1]
    args3_departure [of env3] g s n k' e'
  have "results (fst ?bb) ! (length (results init_state) + 1) =
          failure_row (students args3 ! (0 + 1)) (el_status el_not_found)"
    and "length (results (fst ?bb)) = length (results init_state) + length (rows resp3)"
    by blast+
  then have w4: "results (fst ?bb) ! 1 = failure_row lee ''NOT_FOUND''"
    and w4': "length (results (fst ?bb)) = 3"
    by (simp_all add: init_state_def args3_fields roster3_def el_not_found_def resp3_def
        rows3_def)
  \<comment> \<open>the run\<close>
  have r: "run_commute_times env3 args3 = (?fin, None)" unfolding env3_run by simp
  have ex: "exchanges ?fin = [(base_params args3 roster3, resp3)]"
    unfolding env3_run by simp
  have b: "0 < length (exchanges ?fin)" unfolding ex by simp
  have so: "status (snd (exchanges ?fin ! 0)) = ''OK''" unfolding ex by (simp add: resp3_def)
  have kr: "1 < length (rows (snd (exchanges ?fin ! 0)))"
    and er: "elements (rows (snd (exchanges ?fin ! 0)) ! 1) = el_not_found # []"
    unfolding ex by (simp_all add: resp3_def rows3_def)
  from t [THEN conjunct2, THEN conjunct2, THEN conjunct2, THEN conjunct2] r b so kr er
  have c: "calculate_commute_times env3 args3 = Inr (results ?fin)"
    and f: "results ?fin ! (rows_written (take 0 (exchanges ?fin)) + 1) =
          failure_row (students args3 ! (0 * 25 + 1)) (el_status el_not_found)"
    and cn: "col_name (results ?fin ! (rows_written (take 0 (exchanges ?fin)) + 1)) =
          name (students args3 ! (0 * 25 + 1))"
    and ca: "col_address (results ?fin ! (rows_written (take 0 (exchanges ?fin)) + 1)) =
          address (students args3 ! (0 * 25 + 1))"
    by blast+
  have "results ?fin = table3" unfolding env3_run by simp
  with c have w5: "calculate_commute_times env3 args3 = Inr table3" by simp
  from f have w6: "results ?fin ! 1 = failure_row lee ''NOT_FOUND''"
    by (simp add: rows_written_def args3_fields roster3_def el_not_found_def)
  from cn ca have w7: "col_name (results ?fin ! 1) = ''Lee''"
    "col_address (results ?fin ! 1) = ''Seongnam 456''"
    by (simp_all add: rows_written_def args3_fields roster3_def lee_def)
  from r have rn: "snd (run_commute_times env3 args3) = None" by (metis snd_conv)
  from h rows3_loop w3 n w4 w4' rn so w5 w6 w7 show ?thesis by blast
qed

text \<open>
  Claim C10. Inside a batch answered with \<^verbatim>\<open>"OK"\<close>, row \<open>k\<close> of the answer is paired with
  student \<open>k\<close> of the batch and only the first element of a row is read (cutting every
  row down to its first element changes nothing). A loop that completes has appended one
  row per response row and the response had at most as many rows as the batch has
  students, so with fewer rows the last students get no row; such an iteration shows no
  message. For rows that can each be processed, the loop completes exactly when the
  response has at most as many rows as the batch; with more rows it raises
  \<open>IndexError\<close>.
\<close>

theorem positional_matching:
  "(rows_loop batch (enumerate 0 rs) res = (res', None) \<longrightarrow>
      length rs \<le> length batch \<and>
      (\<exists>new. res' = res @ new \<and> length new = length rs \<and>
         (\<forall>k<length rs. \<exists>el els. elements (rs ! k) = el # els \<and>
             element_row (batch ! k) el = Inr (new ! k)))) \<and>
   rows_loop batch (enumerate 0 (map (\<lambda>r. r\<lparr>elements := take 1 (elements r)\<rparr>) rs)) res =
     rows_loop batch (enumerate 0 rs) res \<and>
   ((\<forall>r\<in>set rs. row_ok r) \<longrightarrow>
      ((\<exists>res'. rows_loop batch (enumerate 0 rs) res = (res', None)) \<longleftrightarrow>
         length rs \<le> length batch) \<and>
      (length batch < length rs \<longrightarrow>
         (\<exists>res'. rows_loop batch (enumerate 0 rs) res = (res', Some IndexError)))) \<and>
   (add_departure_time E A (clock_reads st)
      (base_params A (slice (students A) i (i + batch_size))) = (Inr p, reads) \<and>
    http_get E (length (exchanges st)) p = Inr data \<and> status data = ''OK'' \<longrightarrow>
      shown_errors (fst (batch_body E A tb idx i st)) = shown_errors st \<and>
      (snd (batch_body E A tb idx i st) = None \<longrightarrow>
         length (results (fst (batch_body E A tb idx i st))) =
           length (results st) + length (rows data) \<and>
         length (rows data) \<le> length (slice (students A) i (i + batch_size))))"
proof (intro conjI)
  show "rows_loop batch (enumerate 0 rs) res = (res', None) \<longrightarrow>
      length rs \<le> length batch \<and>
      (\<exists>new. res' = res @ new \<and> length new = length rs \<and>
         (\<forall>k<length rs. \<exists>el els. elements (rs ! k) = el # els \<and>
             element_row (batch ! k) el = Inr (new ! k)))"
  proof
    assume "rows_loop batch (enumerate 0 rs) res = (res', None)"
    from rows_loop_None [OF this] obtain new where
      n: "res' = res @ new" "length new = length rs"
      and b: "rs \<noteq> [] \<longrightarrow> 0 + length rs \<le> length batch"
      and e: "\<forall>k<length rs. \<exists>el els. elements (rs ! k) = el # els \<and>
                 element_row (batch ! (0 + k)) el = Inr (new ! k)"
      by blast
    from b have "length rs \<le> length batch" by (cases rs) simp_all
    moreover from e have "\<forall>k<length rs. \<exists>el els. elements (rs ! k) = el # els \<and>
                 element_row (batch ! k) el = Inr (new ! k)" by simp
    ultimately show "length rs \<le> length batch \<and>
      (\<exists>new. res' = res @ new \<and> length new = length rs \<and>
         (\<forall>k<length rs. \<exists>el els. elements (rs ! k) = el # els \<and>
             element_row (batch ! k) el = Inr (new ! k)))"
      using n by blast
  qed
next
  show "rows_loop batch (enumerate 0 (map (\<lambda>r. r\<lparr>elements := take 1 (elements r)\<rparr>) rs)) res =
     rows_loop batch (enumerate 0 rs) res"
    by (rule rows_loop_first_element)
next
  show "(\<forall>r\<in>set rs. row_ok r) \<longrightarrow>
      ((\<exists>res'. rows_loop batch (enumerate 0 rs) res = (res', None)) \<longleftrightarrow>
         length rs \<le> length batch) \<and>
      (length batch < length rs \<longrightarrow>
         (\<exists>res'. rows_loop batch (enumerate 0 rs) res = (res', Some IndexError)))"
  proof (intro impI conjI iffI)
    assume "\<exists>res'. rows_loop batch (enumerate 0 rs) res = (res', None)"
    then obtain res' where "rows_loop batch (enumerate 0 rs) res = (res', None)" by blast
    from rows_loop_None [OF this] have "rs \<noteq> [] \<longrightarrow> 0 + length rs \<le> length batch" by blast
    then show "length rs \<le> length batch" by (cases rs) simp_all
  next
    assume ok: "\<forall>r\<in>set rs. row_ok r" and "length rs \<le> length batch"
    then have "0 + length rs \<le> length batch" by simp
    from rows_loop_conforming [OF this ok, of res]
    show "\<exists>res'. rows_loop batch (enumerate 0 rs) res = (res', None)" by blast
  next
    assume ok: "\<forall>r\<in>set rs. row_ok r" and "length batch < length rs"
    then have "0 \<le> length batch" "length batch < 0 + length rs" by simp_all
    from rows_loop_too_many [OF this ok, of res]
    show "\<exists>res'. rows_loop batch (enumerate 0 rs) res = (res', Some IndexError)" .
  qed
next
  show "add_departure_time E A (clock_reads st)
      (base_params A (slice (students A) i (i + batch_size))) = (Inr p, reads) \<and>
    http_get E (length (exchanges st)) p = Inr data \<and> status data = ''OK'' \<longrightarrow>
      shown_errors (fst (batch_body E A tb idx i st)) = shown_errors st \<and>
      (snd (batch_body E A tb idx i st) = None \<longrightarrow>
         length (results (fst (batch_body E A tb idx i st))) =
           length (results st) + length (rows data) \<and>
         length (rows data) \<le> length (slice (students A) i (i + batch_size)))"
  proof (intro impI conjI)
    assume h: "add_departure_time E A (clock_reads st)
      (base_params A (slice (students A) i (i + batch_size))) = (Inr p, reads) \<and>
      http_get E (length (exchanges st)) p = Inr data \<and> status data = ''OK''"
    then have a: "add_departure_time E A (clock_reads st)
      (base_params A (slice (students A) i (i + batch_size))) = (Inr p, reads)"
      and g: "http_get E (length (exchanges st)) p = Inr data" and s: "status data = ''OK''"
      by simp_all
    show "shown_errors (fst (batch_body E A tb idx i st)) = shown_errors st"
      by (rule batch_body_ok_fields(1) [OF a g s])
    assume n: "snd (batch_body E A tb idx i st) = None"
    let ?b = "slice (students A) i (i + batch_size)"
    obtain res' where rl: "rows_loop ?b (enumerate 0 (rows data)) (results st) = (res', None)"
      using batch_body_ok_None [OF a g s n]
      by (cases "rows_loop ?b (enumerate 0 (rows data)) (results st)") simp
    from rows_loop_None [OF rl] obtain new where
      n': "res' = results st @ new" "length new = length (rows data)"
      and b: "rows data \<noteq> [] \<longrightarrow> 0 + length (rows data) \<le> length ?b"
      by blast
    from batch_body_ok_fields(4) [OF a g s, of tb idx] rl n'
    show "length (results (fst (batch_body E A tb idx i st))) =
           length (results st) + length (rows data)" by simp
    from b show "length (rows data) \<le> length ?b" by (cases "rows data") simp_all
  qed
qed

theorem positional_matching_witness:
  "rows_loop roster3 (enumerate 0 rows2) [] =
     ([\<lparr>col_name = ''Kim'', col_address = ''Seoul 123'', col_distance = ''1.2 km'',
        col_distance_m = Some 1200, col_duration = ''2 mins'', col_duration_min = Some 1\<rparr>,
       failure_row lee ''NOT_FOUND''], None) \<and>
   length rows2 \<le> length roster3 \<and>
   (\<exists>res'. rows_loop [kim] (enumerate 0 rows3) [] = (res', Some IndexError)) \<and>
   shown_errors (fst (batch_body env3 args3 1 0 0 init_state)) = [] \<and>
   length (results (fst (batch_body env3 args3 1 0 0 init_state))) = 3"
proof -
  let ?R = "[\<lparr>col_name = ''Kim'', col_address = ''Seoul 123'', col_distance = ''1.2 km'',
        col_distance_m = Some 1200, col_duration = ''2 mins'', col_duration_min = Some 1\<rparr>,
       failure_row lee ''NOT_FOUND'']"
  have run: "rows_loop roster3 (enumerate 0 rows2) [] = (?R, None)"
    by (simp add: roster3_def rows2_def kim_def lee_def park_def el_ok_def el_not_found_def
        element_row_def failure_row_def Let_def)
  note t1 = positional_matching [where batch = roster3 and rs = rows2 and res = "[]"
      and res' = ?R]
  from t1 [THEN conjunct1] run have le: "length rows2 \<le> length roster3" by blast
  have ok: "\<forall>r\<in>set rows3. row_ok r"
    by (simp add: rows3_def row_ok_def el_ok_def el_not_found_def)
  have more: "length [kim] < length rows3" by (simp add: rows3_def)
  note t2 = positional_matching [where batch = "[kim]" and rs = rows3 and res = "[]"]
  from t2 [THEN conjunct2, THEN conjunct2, THEN conjunct1] ok more
  have ie: "\<exists>res'. rows_loop [kim] (enumerate 0 rows3) [] = (res', Some IndexError)"
    by blast
  have g: "http_get env3 (length (exchanges init_state)) (base_params args3 roster3) = Inr resp3"
    by (simp add: env3_def)
  have s: "status resp3 = ''OK''" by (simp add: resp3_def)
  have n: "snd (batch_body env3 args3 1 0 0 init_state) = None"
    unfolding env3_body by simp
  note a = args3_departure [of env3]
  note t3 = positional_matching [where E = env3 and A = args3 and st = init_state
      and i = 0 and p = "base_params args3 roster3" and reads = 0 and data = resp3
      and tb = 1 and idx = 0]
  from t3 [THEN conjunct2, THEN conjunct2, THEN conjunct2] a g s n
  have "shown_errors (fst (batch_body env3 args3 1 0 0 init_state)) = shown_errors init_state"
    and "length (results (fst (batch_body env3 args3 1 0 0 init_state))) =
           length (results init_state) + length (rows resp3)"
    by blast+
  then have "shown_errors (fst (batch_body env3 args3 1 0 0 init_state)) = []"
    and "length (results (fst (batch_body env3 args3 1 0 0 init_state))) = 3"
    by (simp_all add: init_state_def resp3_def rows3_def)
  with run le ie show ?thesis by blast
qed

text \<open>
  Claim C4. When the answer to a batch has a top-level status other than \<^verbatim>\<open>"OK"\<close>, the
  iteration ends without an exception, shows one message made of the status and the
  error message (empty when the answer has none), leaves the result rows as they were,
  and the loop goes on with the remaining batches.
\<close>

theorem batch_failure_skipped:
  assumes "add_departure_time E A (clock_reads st)
             (base_params A (slice (students A) i (i + batch_size))) = (Inr p, reads)"
    and "http_get E (length (exchanges st)) p = Inr data"
    and "status data \<noteq> ''OK''"
  shows "\<exists>st'. batch_body E A tb idx i st = (st', None) \<and>
           results st' = results st \<and>
           shown_errors st' = shown_errors st @
             [''API '' @ oryu @ '': '' @ status data @ '' - '' @
                (case error_message data of None \<Rightarrow> [] | Some m \<Rightarrow> m)] \<and>
           batch_loop E A tb ((idx, i) # rest) st = batch_loop E A tb rest st'"
proof -
  let ?st' = "st\<lparr>clock_reads := reads, exchanges := exchanges st @ [(p, data)],
                 shown_errors := shown_errors st @ [api_error_text data]\<rparr>"
  have b: "batch_body E A tb idx i st = (?st', None)"
    using assms by (rule batch_body_not_ok)
  then have "batch_loop E A tb ((idx, i) # rest) st = batch_loop E A tb rest ?st'"
    by simp
  with b show ?thesis
    by (intro exI [of _ ?st']) (simp add: api_error_text_def)
qed

theorem batch_failure_skipped_witness:
  "add_departure_time env_denied args3 (clock_reads init_state)
     (base_params args3 (slice (students args3) 0 (0 + batch_size))) =
     (Inr (base_params args3 roster3), 0) \<and>
   http_get env_denied (length (exchanges init_state)) (base_params args3 roster3) =
     Inr resp_denied \<and>
   status resp_denied \<noteq> ''OK'' \<and>
   (\<exists>st'. batch_body env_denied args3 1 0 0 init_state = (st', None) \<and>
      results st' = [] \<and>
      shown_errors st' =
        [''API '' @ oryu @ '': REQUEST_DENIED - The provided API key is invalid.''] \<and>
      batch_loop env_denied args3 1 [(0, 0)] init_state = (st', None))"
proof -
  have a: "add_departure_time env_denied args3 (clock_reads init_state)
     (base_params args3 (slice (students args3) 0 (0 + batch_size))) =
     (Inr (base_params args3 roster3), 0)"
    by (rule args3_departure)
  have g: "http_get env_denied (length (exchanges init_state)) (base_params args3 roster3) =
     Inr resp_denied"
    by (simp add: env_denied_def)
  have s: "status resp_denied \<noteq> ''OK''" by (simp add: resp_denied_def)
  from batch_failure_skipped [OF a g s, of 1 0 "[]"]
  obtain st' where b: "batch_body env_denied args3 1 0 0 init_state = (st', None)"
    and r: "results st' = results init_state"
    and e: "shown_errors st' = shown_errors init_state @
             [''API '' @ oryu @ '': '' @ status resp_denied @ '' - '' @
                (case error_message resp_denied of None \<Rightarrow> [] | Some m \<Rightarrow> m)]"
    and l: "batch_loop env_denied args3 1 [(0, 0)] init_state =
            batch_loop env_denied args3 1 [] st'"
    by blast
  from r have r': "results st' = []" by (simp add: init_state_def)
  from e have e': "shown_errors st' =
        [''API '' @ oryu @ '': REQUEST_DENIED - The provided API key is invalid.'']"
    by (simp add: init_state_def resp_denied_def)
  from l have l': "batch_loop env_denied args3 1 [(0, 0)] init_state = (st', None)" by simp
  from a g s b r' e' l' show ?thesis by blast
qed

text \<open>
  Claim C2, at a roster of three students whose single batch is refused by the service
  with progress reporting on: the run ends without an exception, it has sent one request
  and shown one message, and it has reported no progress value at all, although the one
  batch of the run is done. The iteration for a refused batch ends at line 68, before
  the progress update of lines 94-95.
\<close>

theorem refused_batch_reports_no_progress:
  "snd (run_commute_times env_denied args3) = None \<and>
   length (batches (students args3)) = 1 \<and>
   length (exchanges (fst (run_commute_times env_denied args3))) = 1 \<and>
   length (shown_errors (fst (run_commute_times env_denied args3))) = 1 \<and>
   progress_values (fst (run_commute_times env_denied args3)) = [] \<and>
   progress_values (fst (run_commute_times env3 args3)) = [1]"
proof -
  have nb: "length (batches (students args3)) = 1"
    by (simp only: length_batches args3_total)
  show ?thesis
    unfolding env_denied_run env3_run nb by (simp add: init_state_def)
qed

text \<open>
  Claim C7. For an hour in 0..23 and a minute in 0..59: without a date, and with a clock
  that shows a valid date before 9999-12-31, the function reads the clock once and
  returns the epoch seconds of a datetime at \<open>hour:minute:00.0\<close> strictly after the clock
  reading: the reading with its time of day replaced when that is strictly later, and
  otherwise the same time on the next calendar day (ordinal plus one). With the clock at
  2024-01-01T09:00:00, hour 8 gives 2024-01-02T08:00:00; at 07:00:00 it gives
  2024-01-01T08:00:00. With a valid date the result is that date at
  \<open>hour:minute:00\<close>, whatever the clock shows, and the clock is not read.
\<close>

theorem departure_resolution:
  assumes "0 \<le> hr" "hr \<le> 23" "0 \<le> mn" "mn \<le> 59"
  shows
   "(valid_ymd (year (clock E k)) (month (clock E k)) (day (clock E k)) \<and>
     \<not> (year (clock E k) = 9999 \<and> month (clock E k) = 12 \<and> day (clock E k) = 31) \<longrightarrow>
       (\<exists>dt. get_departure_timestamp E k hr mn None = (Inr (timestamp E dt), Suc k) \<and>
          hour dt = nat hr \<and> minute dt = nat mn \<and> second dt = 0 \<and> microsecond dt = 0 \<and>
          dt_lt (clock E k) dt \<and>
          (if dt_lt (clock E k)
                ((clock E k)\<lparr>hour := nat hr, minute := nat mn, second := 0, microsecond := 0\<rparr>)
           then dt = (clock E k)\<lparr>hour := nat hr, minute := nat mn, second := 0,
                                 microsecond := 0\<rparr>
           else valid_ymd (year dt) (month dt) (day dt) \<and>
                toordinal (year dt) (month dt) (day dt) =
                  toordinal (year (clock E k)) (month (clock E k)) (day (clock E k)) + 1))) \<and>
    (clock E k = \<lparr>year = 2024, month = 1, day = 1, hour = 9, minute = 0, second = 0,
                  microsecond = 0\<rparr> \<longrightarrow>
       get_departure_timestamp E k 8 0 None =
         (Inr (timestamp E \<lparr>year = 2024, month = 1, day = 2, hour = 8, minute = 0,
                 second = 0, microsecond = 0\<rparr>), Suc k)) \<and>
    (clock E k = \<lparr>year = 2024, month = 1, day = 1, hour = 7, minute = 0, second = 0,
                  microsecond = 0\<rparr> \<longrightarrow>
       get_departure_timestamp E k 8 0 None =
         (Inr (timestamp E \<lparr>year = 2024, month = 1, day = 1, hour = 8, minute = 0,
                 second = 0, microsecond = 0\<rparr>), Suc k)) \<and>
    (valid_ymd (year d) (month d) (day d) \<longrightarrow>
       get_departure_timestamp E k hr mn (Some d) =
         (Inr (timestamp E \<lparr>year = year d, month = month d, day = day d,
                 hour = nat hr, minute = nat mn, second = 0, microsecond = 0\<rparr>), k))"
proof (intro conjI impI)
  assume "valid_ymd (year (clock E k)) (month (clock E k)) (day (clock E k)) \<and>
     \<not> (year (clock E k) = 9999 \<and> month (clock E k) = 12 \<and> day (clock E k) = 31)"
  then have v: "valid_ymd (year (clock E k)) (month (clock E k)) (day (clock E k))"
    and l: "\<not> (year (clock E k) = 9999 \<and> month (clock E k) = 12 \<and> day (clock E k) = 31)"
    by simp_all
  show "\<exists>dt. get_departure_timestamp E k hr mn None = (Inr (timestamp E dt), Suc k) \<and>
          hour dt = nat hr \<and> minute dt = nat mn \<and> second dt = 0 \<and> microsecond dt = 0 \<and>
          dt_lt (clock E k) dt \<and>
          (if dt_lt (clock E k)
                ((clock E k)\<lparr>hour := nat hr, minute := nat mn, second := 0, microsecond := 0\<rparr>)
           then dt = (clock E k)\<lparr>hour := nat hr, minute := nat mn, second := 0,
                                 microsecond := 0\<rparr>
           else valid_ymd (year dt) (month dt) (day dt) \<and>
                toordinal (year dt) (month dt) (day dt) =
                  toordinal (year (clock E k)) (month (clock E k)) (day (clock E k)) + 1)"
    by (rule resolver_no_date [OF assms v l])
next
  assume "clock E k = \<lparr>year = 2024, month = 1, day = 1, hour = 9, minute = 0, second = 0,
                  microsecond = 0\<rparr>"
  then show "get_departure_timestamp E k 8 0 None =
         (Inr (timestamp E \<lparr>year = 2024, month = 1, day = 2, hour = 8, minute = 0,
                 second = 0, microsecond = 0\<rparr>), Suc k)"
    by (simp add: get_departure_timestamp_def replace_hm_def dt_le_def dt_key_def
        add_one_day_def days_in_month_def numeral_2_eq_2)
next
  assume "clock E k = \<lparr>year = 2024, month = 1, day = 1, hour = 7, minute = 0, second = 0,
                  microsecond = 0\<rparr>"
  then show "get_departure_timestamp E k 8 0 None =
         (Inr (timestamp E \<lparr>year = 2024, month = 1, day = 1, hour = 8, minute = 0,
                 second = 0, microsecond = 0\<rparr>), Suc k)"
    by (simp add: get_departure_timestamp_def replace_hm_def dt_le_def dt_key_def)
next
  assume "valid_ymd (year d) (month d) (day d)"
  with assms show "get_departure_timestamp E k hr mn (Some d) =
         (Inr (timestamp E \<lparr>year = year d, month = month d, day = day d,
                 hour = nat hr, minute = nat mn, second = 0, microsecond = 0\<rparr>), k)"
    by (rule resolver_with_date)
qed

theorem departure_resolution_witness:
  "(0::int) \<le> 8 \<and> (8::int) \<le> 23 \<and> (0::int) \<le> 0 \<and> (0::int) \<le> 59 \<and>
   clock env_nine 0 = nine_am \<and>
   get_departure_timestamp env_nine 0 8 0 None = (Inr 1704150000, 1) \<and>
   valid_ymd (year march15) (month march15) (day march15) \<and>
   get_departure_timestamp env_nine 0 8 0 (Some march15) = (Inr 1710457200, 0)"
proof -
  have h: "(0::int) \<le> 8" "(8::int) \<le> 23" "(0::int) \<le> 0" "(0::int) \<le> 59" by simp_all
  have c: "clock env_nine 0 = \<lparr>year = 2024, month = 1, day = 1, hour = 9, minute = 0,
             second = 0, microsecond = 0\<rparr>"
    by (simp add: env_nine_def nine_am_def)
  have v: "valid_ymd (year march15) (month march15) (day march15)"
    by (simp add: march15_def valid_ymd_def days_in_month_def)
  note t = departure_resolution [OF h, where E = env_nine and k = 0 and d = march15]
  from t [THEN conjunct2, THEN conjunct1] c
  have "get_departure_timestamp env_nine 0 8 0 None =
         (Inr (timestamp env_nine \<lparr>year = 2024, month = 1, day = 2, hour = 8, minute = 0,
                 second = 0, microsecond = 0\<rparr>), Suc 0)"
    by blast
  then have a: "get_departure_timestamp env_nine 0 8 0 None = (Inr 1704150000, 1)"
    by (simp add: env_nine_def kst_def fixed_zone_timestamp_def toordinal_def
        days_before_year_def days_before_month_def is_leap_def)
  from t [THEN conjunct2, THEN conjunct2, THEN conjunct2] v
  have "get_departure_timestamp env_nine 0 8 0 (Some march15) =
         (Inr (timestamp env_nine \<lparr>year = year march15, month = month march15,
                 day = day march15, hour = nat 8, minute = nat 0, second = 0,
                 microsecond = 0\<rparr>), 0)"
    by blast
  then have b: "get_departure_timestamp env_nine 0 8 0 (Some march15) = (Inr 1710457200, 0)"
    by (simp add: env_nine_def kst_def fixed_zone_timestamp_def toordinal_def march15_def
        days_before_year_def days_before_month_def is_leap_def)
  from h c a v b show ?thesis by (simp add: nine_am_def)
qed

text \<open>
  Claim C3. When the service conforms for the roster (an \<^verbatim>\<open>"OK"\<close> answer has one
  processable row per origin) and the departure time can be resolved, the run ends
  without an exception after one request per batch, the table returned has at most as
  many rows as the roster has students, and it has exactly as many if and only if every
  answer had the status \<^verbatim>\<open>"OK"\<close>.
\<close>

theorem result_length:
  assumes "conforming E (students A)" and "resolves E A"
  shows "\<exists>st. run_commute_times E A = (st, None) \<and>
           calculate_commute_times E A = Inr (results st) \<and>
           length (exchanges st) = length (batches (students A)) \<and>
           length (results st) \<le> length (students A) \<and>
           (length (results st) = length (students A) \<longleftrightarrow>
              (\<forall>x\<in>set (exchanges st). status (snd x) = ''OK''))"
proof -
  from run_conforming [OF assms] obtain st where
    r: "run_commute_times E A = (st, None)"
    and rest: "length (exchanges st) = length (batches (students A))"
      "length (results st) \<le> length (students A)"
      "length (results st) = length (students A) \<longleftrightarrow>
         (\<forall>x\<in>set (exchanges st). status (snd x) = ''OK'')"
    by blast
  from r have "calculate_commute_times E A = Inr (results st)"
    by (simp add: calculate_commute_times_def)
  with r rest show ?thesis by blast
qed

theorem result_length_witness:
  "conforming env3 (students args3) \<and> resolves env3 args3 \<and>
   calculate_commute_times env3 args3 = Inr table3 \<and>
   length table3 \<le> length (students args3) \<and>
   length table3 = 3 \<and> length (students args3) = 3 \<and>
   conforming env_denied (students args3) \<and> resolves env_denied args3 \<and>
   calculate_commute_times env_denied args3 = Inr [] \<and>
   status (snd (exchanges (fst (run_commute_times env_denied args3)) ! 0)) = ''REQUEST_DENIED''"
proof -
  have r3: "resolves env3 args3" and rd: "resolves env_denied args3"
    by (simp_all add: resolves_no_hour args3_fields)
  from result_length [OF env3_conforming r3] obtain st where
    run: "run_commute_times env3 args3 = (st, None)"
    and c: "calculate_commute_times env3 args3 = Inr (results st)"
    and le: "length (results st) \<le> length (students args3)"
    by blast
  from run have "results st = table3" unfolding env3_run by auto
  with c le have c3: "calculate_commute_times env3 args3 = Inr table3"
    and le3: "length table3 \<le> length (students args3)" by simp_all
  from result_length [OF env_denied_conforming rd] obtain sd where
    rund: "run_commute_times env_denied args3 = (sd, None)"
    and cd: "calculate_commute_times env_denied args3 = Inr (results sd)"
    by blast
  from rund have "results sd = []" unfolding env_denied_run by (auto simp: init_state_def)
  with cd have cd': "calculate_commute_times env_denied args3 = Inr []" by simp
  have l: "length table3 = 3" "length (students args3) = 3"
    by (simp_all add: table3_def args3_fields roster3_def)
  have s: "status (snd (exchanges (fst (run_commute_times env_denied args3)) ! 0)) =
           ''REQUEST_DENIED''"
    unfolding env_denied_run by (simp add: resp_denied_def)
  from env3_conforming r3 c3 le3 l env_denied_conforming rd cd' s show ?thesis by blast
qed

text \<open>
  Claim C9, as amended. Two runs with the same arguments, against a service that is a
  function of the request alone and with the same conversion of local time to epoch
  seconds, do the same things and return the same table, provided that no departure
  hour is given, or a date is given, or both runs see the same clock readings.
\<close>

theorem repeated_run_same_table:
  assumes "http_get E1 = (\<lambda>k. api)" and "http_get E2 = (\<lambda>k. api)"
    and "timestamp E1 = timestamp E2"
    and "departure_hour A = None \<or> departure_date A \<noteq> None \<or> (\<forall>k. clock E1 k = clock E2 k)"
  shows "run_commute_times E1 A = run_commute_times E2 A \<and>
         calculate_commute_times E1 A = calculate_commute_times E2 A"
proof -
  from assms(1,2) have h: "http_get E1 = http_get E2" by simp
  have "run_commute_times E1 A = run_commute_times E2 A"
    unfolding run_commute_times_def batch_loop_env [OF assms(3) h assms(4)] by (rule refl)
  then show ?thesis by (simp add: calculate_commute_times_def)
qed

theorem repeated_run_same_table_witness:
  "http_get env_early = (\<lambda>k. api_timed) \<and> http_get env_late = (\<lambda>k. api_timed) \<and>
   timestamp env_early = timestamp env_late \<and>
   departure_date args8_dated = Some march15 \<and>
   clock env_early 0 = seven_am \<and> clock env_late 0 = nine_am \<and>
   calculate_commute_times env_early args8_dated = calculate_commute_times env_late args8_dated"
proof -
  have a: "http_get env_early = (\<lambda>k. api_timed)" and b: "http_get env_late = (\<lambda>k. api_timed)"
    and t: "timestamp env_early = timestamp env_late"
    by (simp_all add: env_early_def env_late_def)
  have d: "departure_date args8_dated = Some march15" by (simp add: args8_dated_def)
  then have c: "departure_hour args8_dated = None \<or> departure_date args8_dated \<noteq> None \<or>
      (\<forall>k. clock env_early k = clock env_late k)" by simp
  have k: "clock env_early 0 = seven_am" "clock env_late 0 = nine_am"
    by (simp_all add: env_early_def env_late_def)
  from repeated_run_same_table [OF a b t c] a b t d k show ?thesis by blast
qed

text \<open>
  Claim C9 as stated fails when the departure has an hour and no date: the same
  arguments and the same service give the three-row table with the clock at 07:00 and
  an empty table with the clock at 09:00, because the two runs ask for different
  departure times.
\<close>

theorem repeated_run_counterexample:
  "http_get env_early = http_get env_late \<and> timestamp env_early = timestamp env_late \<and>
   calculate_commute_times env_early args8 = Inr table3 \<and>
   calculate_commute_times env_late args8 = Inr [] \<and>
   calculate_commute_times env_early args8 \<noteq> calculate_commute_times env_late args8"
proof -
  have "http_get env_early = http_get env_late" "timestamp env_early = timestamp env_late"
    by (simp_all add: env_early_def env_late_def)
  moreover have "table3 \<noteq> []" by (simp add: table3_def)
  ultimately show ?thesis by (simp add: env_early_run env_late_run)
qed

text \<open>
  Claim C1, as amended. With a departure hour given, the departure time is resolved
  inside the loop, for each batch. With a date, no run reads the clock and every request
  sent carries the same value, the epoch seconds of that date at \<open>hour:minute:00\<close>.
  Without a date, the request of batch \<open>k\<close> carries the value resolved from the clock
  reading number \<open>k\<close>, and a run that ends without an exception has read the clock once
  per batch.
\<close>

theorem departure_time_per_batch:
  assumes "departure_hour A = Some h"
  shows
   "(departure_date A = Some d \<longrightarrow>
       clock_reads (fst (run_commute_times E A)) = 0 \<and>
       (\<forall>x\<in>set (exchanges (fst (run_commute_times E A))).
          departure_time (fst x) =
            Some (timestamp E \<lparr>year = year d, month = month d, day = day d, hour = nat h,
                    minute = nat (departure_minute A), second = 0, microsecond = 0\<rparr>))) \<and>
    (departure_date A = None \<longrightarrow>
       (\<forall>k<length (exchanges (fst (run_commute_times E A))).
          \<exists>t. fst (get_departure_timestamp E k h (departure_minute A) None) = Inr t \<and>
              departure_time (fst (exchanges (fst (run_commute_times E A)) ! k)) = Some t) \<and>
       (snd (run_commute_times E A) = None \<longrightarrow>
          clock_reads (fst (run_commute_times E A)) = length (batches (students A))))"
proof (intro conjI impI)
  assume d: "departure_date A = Some d"
  from dated_requests [OF assms d, of E]
  show "clock_reads (fst (run_commute_times E A)) = 0"
    and "\<forall>x\<in>set (exchanges (fst (run_commute_times E A))).
          departure_time (fst x) =
            Some (timestamp E \<lparr>year = year d, month = month d, day = day d, hour = nat h,
                    minute = nat (departure_minute A), second = 0, microsecond = 0\<rparr>)"
    unfolding run_commute_times_def Let_def by blast+
next
  assume n: "departure_date A = None"
  from undated_requests [OF assms n, of E]
  show "\<forall>k<length (exchanges (fst (run_commute_times E A))).
          \<exists>t. fst (get_departure_timestamp E k h (departure_minute A) None) = Inr t \<and>
              departure_time (fst (exchanges (fst (run_commute_times E A)) ! k)) = Some t"
    unfolding run_commute_times_def Let_def by blast
next
  assume n: "departure_date A = None" and r: "snd (run_commute_times E A) = None"
  let ?xs = "enumerate 0 (batch_starts 0 (length (students A)))"
  let ?tb = "(length (students A) + batch_size - 1) div batch_size"
  from r have r': "snd (batch_loop E A ?tb ?xs init_state) = None"
    by (simp add: run_commute_times_def Let_def)
  with undated_requests [OF assms n, of E ?tb ?xs]
  have c: "clock_reads (fst (batch_loop E A ?tb ?xs init_state)) =
           length (exchanges (fst (batch_loop E A ?tb ?xs init_state)))" by blast
  from r' have "batch_loop E A ?tb ?xs init_state = (fst (batch_loop E A ?tb ?xs init_state), None)"
    by (cases "batch_loop E A ?tb ?xs init_state") simp
  from batch_loop_exchanges_count [OF this]
  have "length (exchanges (fst (batch_loop E A ?tb ?xs init_state))) = length (batches (students A))"
    by (simp add: init_state_def batches_def)
  with c show "clock_reads (fst (run_commute_times E A)) = length (batches (students A))"
    by (simp add: run_commute_times_def Let_def)
qed

theorem departure_time_per_batch_witness:
  "departure_hour args8_dated = Some 8 \<and> departure_date args8_dated = Some march15 \<and>
   clock_reads (fst (run_commute_times env_early args8_dated)) = 0 \<and>
   departure_hour args26 = Some 8 \<and> departure_date args26 = None \<and>
   snd (run_commute_times env_tick args26) = None \<and>
   clock_reads (fst (run_commute_times env_tick args26)) = length (batches (students args26)) \<and>
   length (batches (students args26)) = 2"
proof -
  have h: "departure_hour args8_dated = Some 8" and d: "departure_date args8_dated = Some march15"
    by (simp_all add: args8_dated_def)
  from departure_time_per_batch [OF h, of march15 env_early] d
  have z: "clock_reads (fst (run_commute_times env_early args8_dated)) = 0" by blast
  from tick_run have r: "snd (run_commute_times env_tick args26) = None" by auto
  from departure_time_per_batch [OF args26_fields(2), of march15 env_tick] args26_fields(4) r
  have c: "clock_reads (fst (run_commute_times env_tick args26)) =
           length (batches (students args26))" by blast
  have l: "length (batches (students args26)) = 2"
    by (simp only: length_batches args26_loop)
  from h d z args26_fields(2,4) r c l show ?thesis by blast
qed

text \<open>
  Claim C1 as stated fails: for a roster of 26 with a departure at hour 8 and no date,
  and a clock that passes 08:00 between the two batches, the run resolves the departure
  time twice (two clock readings) and its two requests carry different values,
  2024-01-01T08:00:00 and 2024-01-02T08:00:00 Korea Standard Time.
\<close>

theorem departure_time_counterexample:
  "clock_reads (fst (run_commute_times env_tick args26)) = 2 \<and>
   map (departure_time \<circ> fst) (exchanges (fst (run_commute_times env_tick args26))) =
     [Some 1704063600, Some 1704150000]"
  using tick_run by auto

end
